theory Spec2Isabelle
  imports Main "HOL-Library.AList" "HOL-Library.Multiset"
begin

section \<open>Coffee profile decision rules: rule-based point scoring\<close>

text \<open>
  The embedding follows \<^verbatim>\<open>decision_rules.py\<close>. A Python \<^verbatim>\<open>dict\<close> iterates in
  insertion order and the engine's tie-break depends on that order, so every dict is an
  association list in insertion order: \<open>map_of\<close> is the lookup, membership
  (\<^verbatim>\<open>k in d\<close>) is \<open>map_of d k \<noteq> None\<close>, and \<open>AList.update\<close> is the assignment
  \<^verbatim>\<open>d[k] = v\<close> (an existing key keeps its position). Python's \<^verbatim>\<open>int\<close> is \<open>int\<close>.
  A string is a list of bytes; the two non-ASCII characters of the explanation texts are
  kept as their UTF-8 encodings.
\<close>

subsection \<open>Label candidates\<close>

type_synonym score_map = "(string \<times> int) list"
type_synonym scoreboard = "(string \<times> score_map) list"
type_synonym delta_set = "(string \<times> (string \<times> int) list) list"
type_synonym rule = "delta_set \<times> string \<times> int"

definition ACIDITY :: "string list" where
  "ACIDITY = [''low'', ''medium'', ''high'']"

definition CAFFEINE :: "string list" where
  "CAFFEINE = [''low'', ''medium'', ''high'']"

definition ROAST :: "string list" where
  "ROAST = [''light'', ''medium'', ''dark'']"

definition FLAVOR :: "string list" where
  "FLAVOR = [''nutty_chocolate'', ''sweet_caramel'', ''fruity'', ''floral'', ''spicy'']"

definition PROCESS :: "string list" where
  "PROCESS = [''washed'', ''natural'', ''honey'', ''anaerobic'', ''any'']"

definition BREW :: "string list" where
  "BREW = [''filter'', ''espresso'', ''both'']"

subsection \<open>User input schema\<close>

record UserPref =
  stomach_sensitivity :: string
  caffeine_sensitivity :: string
  time_of_day :: string
  purpose :: string
  flavor_direction :: "string list"
  brew_method :: string

text \<open>Scenario A of the specification's testable properties.\<close>

definition scenario_A :: UserPref where
  "scenario_A =
    \<lparr>stomach_sensitivity = ''high'', caffeine_sensitivity = ''high'',
     time_of_day = ''evening'', purpose = ''calm'', flavor_direction = [''floral''],
     brew_method = ''filter''\<rparr>"

subsection \<open>Scoring utilities\<close>

definition init_scoreboard :: scoreboard where
  "init_scoreboard =
    [(''acidity'', map (\<lambda>k. (k, 0)) ACIDITY),
     (''caffeine'', map (\<lambda>k. (k, 0)) CAFFEINE),
     (''roast'', map (\<lambda>k. (k, 0)) ROAST),
     (''flavor'', map (\<lambda>k. (k, 0)) FLAVOR),
     (''process'', map (\<lambda>k. (k, 0)) PROCESS),
     (''brew'', map (\<lambda>k. (k, 0)) BREW),
     (''bean_pref'', [(''arabica'', 0), (''blend'', 0), (''robusta'', 0)])]"

text \<open>
  The inner loop of \<^verbatim>\<open>apply_delta\<close> over \<^verbatim>\<open>changes.items()\<close>, on the row
  \<^verbatim>\<open>scores[dim]\<close>: a label that is not a key of the row is skipped.
\<close>

fun apply_changes :: "score_map \<Rightarrow> (string \<times> int) list \<Rightarrow> score_map" where
  "apply_changes row [] = row"
| "apply_changes row ((label, delta) # rest) =
     apply_changes
       (case map_of row label of
          None \<Rightarrow> row
        | Some v \<Rightarrow> AList.update label (v + delta) row)
       rest"

text \<open>
  The outer loop over \<^verbatim>\<open>deltas.items()\<close>. The source mutates the scoreboard in
  place and returns nothing; the model returns the updated scoreboard. The rows of a
  scoreboard are separate objects (\<^verbatim>\<open>init_scoreboard\<close> builds each one fresh), so
  writing to one row leaves the others as they are.
\<close>

fun apply_delta :: "scoreboard \<Rightarrow> delta_set \<Rightarrow> scoreboard" where
  "apply_delta sc [] = sc"
| "apply_delta sc ((dim, changes) # rest) =
     apply_delta
       (case map_of sc dim of
          None \<Rightarrow> sc
        | Some row \<Rightarrow> AList.update dim (apply_changes row changes) sc)
       rest"

text \<open>
  \<^verbatim>\<open>argmax_label\<close>: the loop state is the pair \<^verbatim>\<open>(best, best_score)\<close>, \<open>None\<close>
  while \<^verbatim>\<open>best is None\<close>. The result is Python's \<^verbatim>\<open>None\<close> on an empty mapping.
\<close>

fun argmax_loop :: "(string \<times> int) option \<Rightarrow> score_map \<Rightarrow> (string \<times> int) option" where
  "argmax_loop acc [] = acc"
| "argmax_loop acc ((k, v) # rest) =
     argmax_loop
       (case acc of
          None \<Rightarrow> Some (k, v)
        | Some (best, best_score) \<Rightarrow> if v > best_score then Some (k, v) else acc)
       rest"

definition argmax_label :: "score_map \<Rightarrow> string option" where
  "argmax_label score_map = map_option fst (argmax_loop None score_map)"

text \<open>
  The builtin \<^verbatim>\<open>sorted(xs, key=key, reverse=True)\<close>: a stable sort into descending key
  order (equal keys keep their original order), here the library's stable insertion sort
  on the negated key.
\<close>

definition py_sorted_reverse :: "('a \<Rightarrow> int) \<Rightarrow> 'a list \<Rightarrow> 'a list" where
  "py_sorted_reverse key xs = sort_key (\<lambda>x. - key x) xs"

text \<open>
  The slice \<^verbatim>\<open>xs[:k]\<close>: a negative \<^verbatim>\<open>k\<close> counts from the end of the list.
\<close>

definition py_slice_to :: "'a list \<Rightarrow> int \<Rightarrow> 'a list" where
  "py_slice_to xs k =
     (if 0 \<le> k then take (nat k) xs else take (nat (int (length xs) + k)) xs)"

definition top_reasons :: "(string \<times> int) list \<Rightarrow> int \<Rightarrow> string list" where
  "top_reasons reasons k =
     (let reasons_sorted = py_sorted_reverse snd reasons
      in map fst (py_slice_to reasons_sorted k))"

subsection \<open>Rules definition\<close>

definition arrow :: string where
  "arrow = [CHR 0xE2, CHR 0x86, CHR 0x92]"

definition en_dash :: string where
  "en_dash = [CHR 0xE2, CHR 0x80, CHR 0x93]"

definition RULES :: "(string \<times> (string \<times> rule) list) list" where
  "RULES =
    [(''stomach_sensitivity'',
      [(''high'',
         ([(''acidity'', [(''low'', 4), (''medium'', 1), (''high'', -3)]),
           (''roast'', [(''medium'', 2), (''dark'', 2), (''light'', -2)]),
           (''bean_pref'', [(''arabica'', 3), (''blend'', 1), (''robusta'', -6)])],
          ''High stomach sensitivity '' @ arrow @ '' prioritize low acidity + smoother roast; avoid robusta-heavy options to reduce irritation risk.'',
          110)),
       (''medium'',
         ([(''acidity'', [(''medium'', 3), (''low'', 1), (''high'', -1)]),
           (''roast'', [(''medium'', 2), (''light'', 1), (''dark'', 1)]),
           (''bean_pref'', [(''arabica'', 1), (''blend'', 1), (''robusta'', -1)])],
          ''Medium stomach sensitivity '' @ arrow @ '' keep profile balanced; prefer cleaner/smoother options.'',
          70)),
       (''low'',
         ([(''acidity'', [(''high'', 2), (''medium'', 2), (''low'', 0)]),
           (''roast'', [(''light'', 2), (''medium'', 2), (''dark'', 0)]),
           (''bean_pref'', [(''arabica'', 0), (''blend'', 1), (''robusta'', 1)])],
          ''Low stomach sensitivity '' @ arrow @ '' you can explore brighter profiles; bean choice is flexible.'',
          50))]),
     (''caffeine_sensitivity'',
      [(''high'',
         ([(''caffeine'', [(''low'', 5), (''medium'', 1), (''high'', -6)]),
           (''bean_pref'', [(''arabica'', 4), (''blend'', 1), (''robusta'', -10)])],
          ''High caffeine sensitivity '' @ arrow @ '' strongly prioritize low caffeine; avoid robusta-heavy coffee.'',
          120)),
       (''medium'',
         ([(''caffeine'', [(''medium'', 3), (''low'', 1), (''high'', -2)]),
           (''bean_pref'', [(''arabica'', 2), (''blend'', 1), (''robusta'', -2)])],
          ''Medium caffeine sensitivity '' @ arrow @ '' aim for moderate caffeine (Arabica or light blend).'',
          70)),
       (''low'',
         ([(''caffeine'', [(''high'', 2), (''medium'', 2), (''low'', 0)]),
           (''bean_pref'', [(''robusta'', 2), (''blend'', 1), (''arabica'', 0)])],
          ''Low caffeine sensitivity '' @ arrow @ '' higher caffeine profiles are acceptable (blend/robusta allowed).'',
          40))]),
     (''time_of_day'',
      [(''morning'',
         ([(''caffeine'', [(''high'', 2), (''medium'', 2), (''low'', 0)]),
           (''roast'', [(''medium'', 2), (''light'', 1)])],
          ''Morning coffee '' @ arrow @ '' allow medium'' @ en_dash @ ''high caffeine for an energizing start.'',
          60)),
       (''afternoon'',
         ([(''caffeine'', [(''medium'', 2), (''low'', 1), (''high'', 1)]),
           (''roast'', [(''medium'', 2)])],
          ''Afternoon coffee '' @ arrow @ '' keep caffeine moderate to avoid an afternoon crash.'',
          50)),
       (''evening'',
         ([(''caffeine'', [(''low'', 3), (''medium'', 1), (''high'', -2)]),
           (''roast'', [(''medium'', 2), (''dark'', 1)])],
          ''Evening coffee '' @ arrow @ '' prioritize lower caffeine to reduce sleep disruption risk.'',
          80))]),
     (''purpose'',
      [(''focus'',
         ([(''caffeine'', [(''high'', 2), (''medium'', 2), (''low'', 0)]),
           (''roast'', [(''medium'', 2)])],
          ''Purpose: focus '' @ arrow @ '' lean toward medium'' @ en_dash @ ''high caffeine with a balanced roast.'',
          60)),
       (''balanced'',
         ([(''caffeine'', [(''medium'', 2)]),
           (''roast'', [(''medium'', 2)]),
           (''acidity'', [(''medium'', 2)])],
          ''Purpose: balanced '' @ arrow @ '' default to a versatile middle-profile (medium caffeine, medium roast, medium acidity).'',
          50)),
       (''calm'',
         ([(''caffeine'', [(''low'', 2), (''medium'', 1), (''high'', -1)]),
           (''acidity'', [(''low'', 2), (''medium'', 1)])],
          ''Purpose: calm '' @ arrow @ '' prefer lower stimulation (lower caffeine, gentler acidity).'',
          80))]),
     (''brew_method'',
      [(''filter'',
         ([(''brew'', [(''filter'', 3), (''both'', 1)]),
           (''roast'', [(''light'', 1), (''medium'', 2)])],
          ''Brew method: filter '' @ arrow @ '' filter-friendly profiles often shine at light'' @ en_dash @ ''medium roast.'',
          40)),
       (''espresso'',
         ([(''brew'', [(''espresso'', 3), (''both'', 1)]),
           (''roast'', [(''medium'', 2), (''dark'', 2)])],
          ''Brew method: espresso '' @ arrow @ '' espresso-friendly profiles often fit medium'' @ en_dash @ ''dark roast.'',
          40)),
       (''both'',
         ([(''brew'', [(''both'', 3), (''filter'', 1), (''espresso'', 1)]),
           (''roast'', [(''medium'', 2)])],
          ''Brew method: both '' @ arrow @ '' choose a flexible medium roast profile.'',
          30))])]"

definition FLAVOR_RULES :: "(string \<times> rule) list" where
  "FLAVOR_RULES =
    [(''nutty_chocolate'',
       ([(''flavor'', [(''nutty_chocolate'', 3)]),
         (''roast'', [(''medium'', 2), (''dark'', 2)]),
         (''process'', [(''washed'', 1), (''honey'', 1), (''any'', 1)])],
        ''Flavor: nutty/chocolate '' @ arrow @ '' often pairs well with medium'' @ en_dash @ ''dark roast; washed/honey can keep it clean and rounded.'',
        55)),
     (''sweet_caramel'',
       ([(''flavor'', [(''sweet_caramel'', 3)]),
         (''roast'', [(''medium'', 2)]),
         (''process'', [(''honey'', 2), (''natural'', 1), (''any'', 1)])],
        ''Flavor: sweet/caramel '' @ arrow @ '' typically fits medium roast; honey/natural processes can enhance sweetness.'',
        55)),
     (''fruity'',
       ([(''flavor'', [(''fruity'', 3)]),
         (''roast'', [(''light'', 2), (''medium'', 1), (''dark'', -1)]),
         (''process'', [(''natural'', 2), (''anaerobic'', 1), (''washed'', 1), (''any'', 1)])],
        ''Flavor: fruity '' @ arrow @ '' commonly found in light'' @ en_dash @ ''medium roast; natural/anaerobic can emphasize fruit notes.'',
        55)),
     (''floral'',
       ([(''flavor'', [(''floral'', 3)]),
         (''roast'', [(''light'', 2), (''medium'', 1)]),
         (''process'', [(''washed'', 2), (''any'', 1)])],
        ''Flavor: floral '' @ arrow @ '' often shines in light roast; washed process tends to keep it clean and tea-like.'',
        55)),
     (''spicy'',
       ([(''flavor'', [(''spicy'', 3)]),
         (''roast'', [(''medium'', 2), (''dark'', 2)]),
         (''process'', [(''washed'', 1), (''natural'', 1), (''any'', 1)])],
        ''Flavor: spicy/earthy '' @ arrow @ '' commonly matches medium'' @ en_dash @ ''dark roast; washed/natural can work depending on the bean.'',
        55))]"

subsection \<open>Main function: building the coffee profile\<close>

text \<open>\<^verbatim>\<open>RULES.get(field_name, {})\<close>: the rules of one field, none for an unknown field.\<close>

definition field_rules :: "string \<Rightarrow> (string \<times> rule) list" where
  "field_rules field_name = (case map_of RULES field_name of None \<Rightarrow> [] | Some fr \<Rightarrow> fr)"

text \<open>The loop over the five single-choice fields, in the source's fixed order.\<close>

fun single_choice_loop ::
  "scoreboard \<times> (string \<times> int) list \<Rightarrow> (string \<times> string) list
    \<Rightarrow> scoreboard \<times> (string \<times> int) list" where
  "single_choice_loop st [] = st"
| "single_choice_loop (sc, rs) ((field_name, val) # rest) =
     (let rules_of_field = field_rules field_name
      in case map_of rules_of_field val of
           None \<Rightarrow> single_choice_loop (sc, rs) rest
         | Some (deltas, reason, r_weight) \<Rightarrow>
             single_choice_loop (apply_delta sc deltas, rs @ [(reason, r_weight)]) rest)"

text \<open>The loop over \<^verbatim>\<open>user.flavor_direction\<close>.\<close>

fun flavor_loop ::
  "scoreboard \<times> (string \<times> int) list \<Rightarrow> string list
    \<Rightarrow> scoreboard \<times> (string \<times> int) list" where
  "flavor_loop st [] = st"
| "flavor_loop (sc, rs) (f # rest) =
     (case map_of FLAVOR_RULES f of
        None \<Rightarrow> flavor_loop (sc, rs) rest
      | Some (deltas, reason, r_weight) \<Rightarrow>
          flavor_loop (apply_delta sc deltas, rs @ [(reason, r_weight)]) rest)"

text \<open>
  The scoreboard and the collected \<^verbatim>\<open>(reason, r_weight)\<close> entries when both loops
  of \<^verbatim>\<open>build_profile\<close> are done.
\<close>

definition collect :: "UserPref \<Rightarrow> scoreboard \<times> (string \<times> int) list" where
  "collect user =
     flavor_loop
       (single_choice_loop (init_scoreboard, [])
          [(''stomach_sensitivity'', stomach_sensitivity user),
           (''caffeine_sensitivity'', caffeine_sensitivity user),
           (''time_of_day'', time_of_day user),
           (''purpose'', purpose user),
           (''brew_method'', brew_method user)])
       (flavor_direction user)"

datatype py_error = KeyError

text \<open>
  \<^verbatim>\<open>argmax_label(scores[dim])\<close>: the subscript raises \<^verbatim>\<open>KeyError\<close> on a missing
  dimension.
\<close>

definition resolve :: "scoreboard \<Rightarrow> string \<Rightarrow> py_error + string option" where
  "resolve sc dim =
     (case map_of sc dim of None \<Rightarrow> Inl KeyError | Some row \<Rightarrow> Inr (argmax_label row))"

record Profile =
  acidity_level :: "string option"
  caffeine_tendency :: "string option"
  roast_level :: "string option"
  flavor_direction :: "string option"
  process_preference :: "string option"
  brew_suitability :: "string option"
  bean_preference :: "string option"

record Output =
  profile :: Profile
  scores :: scoreboard
  reasons :: "string list"
  disclaimer :: string

text \<open>An exception raised by a step ends the call; otherwise the next step runs.\<close>

definition then_do :: "py_error + 'a \<Rightarrow> ('a \<Rightarrow> py_error + 'b) \<Rightarrow> py_error + 'b" where
  "then_do m f = (case m of Inl e \<Rightarrow> Inl e | Inr x \<Rightarrow> f x)"

definition build_profile :: "UserPref \<Rightarrow> py_error + Output" where
  "build_profile user =
     (case collect user of (sc, rs) \<Rightarrow>
      then_do (resolve sc ''acidity'') (\<lambda>target_acidity.
      then_do (resolve sc ''caffeine'') (\<lambda>target_caffeine.
      then_do (resolve sc ''roast'') (\<lambda>target_roast.
      then_do (resolve sc ''flavor'') (\<lambda>target_flavor.
      then_do (resolve sc ''process'') (\<lambda>target_process.
      then_do (resolve sc ''brew'') (\<lambda>target_brew.
      then_do (resolve sc ''bean_pref'') (\<lambda>bean_pref0.
        let bean_pref1 =
              (if caffeine_sensitivity user = ''high'' \<and> bean_pref0 = Some ''robusta''
               then Some ''arabica'' else bean_pref0);
            bean_pref2 =
              (if stomach_sensitivity user = ''high'' \<and> bean_pref1 = Some ''robusta''
               then Some ''arabica'' else bean_pref1)
        in Inr \<lparr>profile =
                   \<lparr>acidity_level = target_acidity,
                    caffeine_tendency = target_caffeine,
                    roast_level = target_roast,
                    flavor_direction = target_flavor,
                    process_preference = target_process,
                    brew_suitability = target_brew,
                    bean_preference = bean_pref2\<rparr>,
                 scores = sc,
                 reasons = top_reasons rs 4,
                 disclaimer =
                   ''This is a preference-based recommendation and not medical advice.''\<rparr>))))))))"

subsection \<open>The same functions over an explicit store\<close>

text \<open>
  The functions above work on values. The source works on objects: the rule catalog is a
  module-level dict of dicts that lives as long as the process, \<^verbatim>\<open>init_scoreboard\<close>
  creates new dicts at every call, and \<^verbatim>\<open>apply_delta\<close> writes into a dict it was given.
  To speak about what one call leaves behind for the next, the functions are given a second
  time over a store of objects.

  The only assignment to a dict in the file is \<^verbatim>\<open>scores[dim][label] += delta\<close>, and its
  target is an inner dict, a row from labels to integers. So the store holds rows, an
  address is an index into it, and an outer dict (a scoreboard, a delta-set) is a list of
  keys with the addresses of their rows. Creating a dict appends a row; an address is only
  ever obtained from a creation, so every address that is read is in range.
\<close>

type_synonym addr = nat
type_synonym store = "score_map list"
type_synonym dict_ref = "(string \<times> addr) list"
type_synonym rule_ref = "dict_ref \<times> string \<times> int"

text \<open>
  A dict display or comprehension whose values are new dicts, such as the body of
  \<^verbatim>\<open>init_scoreboard\<close> or a delta-set of the catalog: each row is created in turn.
\<close>

fun new_rows :: "store \<Rightarrow> (string \<times> score_map) list \<Rightarrow> dict_ref \<times> store" where
  "new_rows st [] = ([], st)"
| "new_rows st ((k, row) # rest) =
     (case new_rows (st @ [row]) rest of (refs, st') \<Rightarrow> ((k, length st) # refs, st'))"

text \<open>
  Executing the module creates the catalog: the rows of every delta-set of \<^verbatim>\<open>RULES\<close>,
  then those of \<^verbatim>\<open>FLAVOR_RULES\<close>. The result is the catalog with addresses in place of
  rows, and the store that holds the rows.
\<close>

fun load_rules :: "store \<Rightarrow> (string \<times> rule) list \<Rightarrow> (string \<times> rule_ref) list \<times> store" where
  "load_rules st [] = ([], st)"
| "load_rules st ((val, deltas, reason, r_weight) # rest) =
     (case new_rows st deltas of (dref, st1) \<Rightarrow>
      case load_rules st1 rest of (refs, st2) \<Rightarrow>
        ((val, dref, reason, r_weight) # refs, st2))"

fun load_fields ::
  "store \<Rightarrow> (string \<times> (string \<times> rule) list) list
    \<Rightarrow> (string \<times> (string \<times> rule_ref) list) list \<times> store" where
  "load_fields st [] = ([], st)"
| "load_fields st ((field_name, rs) # rest) =
     (case load_rules st rs of (rrefs, st1) \<Rightarrow>
      case load_fields st1 rest of (refs, st2) \<Rightarrow> ((field_name, rrefs) # refs, st2))"

definition module_state ::
  "(string \<times> (string \<times> rule_ref) list) list \<times> (string \<times> rule_ref) list \<times> store" where
  "module_state =
     (case load_fields [] RULES of (rr, st1) \<Rightarrow>
      case load_rules st1 FLAVOR_RULES of (fr, st2) \<Rightarrow> (rr, fr, st2))"

definition RULES_ref :: "(string \<times> (string \<times> rule_ref) list) list" where
  "RULES_ref = fst module_state"

definition FLAVOR_RULES_ref :: "(string \<times> rule_ref) list" where
  "FLAVOR_RULES_ref = fst (snd module_state)"

definition catalog_store :: store where
  "catalog_store = snd (snd module_state)"

text \<open>The value of an outer dict in a store, and of a rule.\<close>

definition deref :: "store \<Rightarrow> dict_ref \<Rightarrow> (string \<times> score_map) list" where
  "deref st refs = map (\<lambda>(k, a). (k, st ! a)) refs"

definition deref_rule :: "store \<Rightarrow> rule_ref \<Rightarrow> rule" where
  "deref_rule st rl = (case rl of (dref, reason, r_weight) \<Rightarrow> (deref st dref, reason, r_weight))"

text \<open>
  \<^verbatim>\<open>apply_delta\<close> on objects: \<^verbatim>\<open>sref\<close> is the scoreboard and the second list is the
  delta-set. The inner loop reads the row of changes and writes the row of scores. It
  writes only the label it is visiting, so even if both were the same object the changes
  it has yet to read would be as they were when the loop began; the inner loop is
  therefore \<open>apply_changes\<close> on the two rows as they are when it begins.
\<close>

fun apply_delta_st :: "store \<Rightarrow> dict_ref \<Rightarrow> dict_ref \<Rightarrow> store" where
  "apply_delta_st st sref [] = st"
| "apply_delta_st st sref ((dim, ca) # rest) =
     apply_delta_st
       (case map_of sref dim of
          None \<Rightarrow> st
        | Some sa \<Rightarrow> st[sa := apply_changes (st ! sa) (st ! ca)])
       sref rest"

text \<open>\<^verbatim>\<open>init_scoreboard\<close>, the lookup of a field's rules, and the two loops, on objects.\<close>

definition init_scoreboard_st :: "store \<Rightarrow> dict_ref \<times> store" where
  "init_scoreboard_st st = new_rows st init_scoreboard"

definition field_rules_ref :: "string \<Rightarrow> (string \<times> rule_ref) list" where
  "field_rules_ref field_name =
     (case map_of RULES_ref field_name of None \<Rightarrow> [] | Some fr \<Rightarrow> fr)"

fun single_choice_loop_st ::
  "dict_ref \<Rightarrow> store \<times> (string \<times> int) list \<Rightarrow> (string \<times> string) list
    \<Rightarrow> store \<times> (string \<times> int) list" where
  "single_choice_loop_st sref s [] = s"
| "single_choice_loop_st sref (st, rs) ((field_name, val) # rest) =
     (let rules_of_field = field_rules_ref field_name
      in case map_of rules_of_field val of
           None \<Rightarrow> single_choice_loop_st sref (st, rs) rest
         | Some (deltas, reason, r_weight) \<Rightarrow>
             single_choice_loop_st sref
               (apply_delta_st st sref deltas, rs @ [(reason, r_weight)]) rest)"

fun flavor_loop_st ::
  "dict_ref \<Rightarrow> store \<times> (string \<times> int) list \<Rightarrow> string list
    \<Rightarrow> store \<times> (string \<times> int) list" where
  "flavor_loop_st sref s [] = s"
| "flavor_loop_st sref (st, rs) (f # rest) =
     (case map_of FLAVOR_RULES_ref f of
        None \<Rightarrow> flavor_loop_st sref (st, rs) rest
      | Some (deltas, reason, r_weight) \<Rightarrow>
          flavor_loop_st sref (apply_delta_st st sref deltas, rs @ [(reason, r_weight)]) rest)"

definition resolve_st :: "store \<Rightarrow> dict_ref \<Rightarrow> string \<Rightarrow> py_error + string option" where
  "resolve_st st sref dim =
     (case map_of sref dim of None \<Rightarrow> Inl KeyError | Some a \<Rightarrow> Inr (argmax_label (st ! a)))"

text \<open>
  \<^verbatim>\<open>build_profile\<close> on objects: the result, and the store the call leaves behind. The
  \<^verbatim>\<open>scores\<close> of the result is the scoreboard object; its value is taken when the call
  returns.
\<close>

definition build_profile_st :: "store \<Rightarrow> UserPref \<Rightarrow> (py_error + Output) \<times> store" where
  "build_profile_st st user =
     (case init_scoreboard_st st of (sref, st0) \<Rightarrow>
      case flavor_loop_st sref
             (single_choice_loop_st sref (st0, [])
                [(''stomach_sensitivity'', stomach_sensitivity user),
                 (''caffeine_sensitivity'', caffeine_sensitivity user),
                 (''time_of_day'', time_of_day user),
                 (''purpose'', purpose user),
                 (''brew_method'', brew_method user)])
             (UserPref.flavor_direction user) of
        (st1, rs) \<Rightarrow>
      (then_do (resolve_st st1 sref ''acidity'') (\<lambda>target_acidity.
       then_do (resolve_st st1 sref ''caffeine'') (\<lambda>target_caffeine.
       then_do (resolve_st st1 sref ''roast'') (\<lambda>target_roast.
       then_do (resolve_st st1 sref ''flavor'') (\<lambda>target_flavor.
       then_do (resolve_st st1 sref ''process'') (\<lambda>target_process.
       then_do (resolve_st st1 sref ''brew'') (\<lambda>target_brew.
       then_do (resolve_st st1 sref ''bean_pref'') (\<lambda>bean_pref0.
         let bean_pref1 =
               (if caffeine_sensitivity user = ''high'' \<and> bean_pref0 = Some ''robusta''
                then Some ''arabica'' else bean_pref0);
             bean_pref2 =
               (if stomach_sensitivity user = ''high'' \<and> bean_pref1 = Some ''robusta''
                then Some ''arabica'' else bean_pref1)
         in Inr \<lparr>profile =
                    \<lparr>acidity_level = target_acidity,
                     caffeine_tendency = target_caffeine,
                     roast_level = target_roast,
                     flavor_direction = target_flavor,
                     process_preference = target_process,
                     brew_suitability = target_brew,
                     bean_preference = bean_pref2\<rparr>,
                  scores = deref st1 sref,
                  reasons = top_reasons rs 4,
                  disclaimer =
                    ''This is a preference-based recommendation and not medical advice.''\<rparr>))))))),
       st1))"

text \<open>
  The catalog is in the store as the module created it. A scoreboard of a running call: its
  keys and its rows are distinct, and its rows were created after the catalog.
\<close>

definition catalog_loaded :: "store \<Rightarrow> bool" where
  "catalog_loaded st \<longleftrightarrow>
     length catalog_store \<le> length st \<and> take (length catalog_store) st = catalog_store"

definition sb_inv :: "store \<Rightarrow> dict_ref \<Rightarrow> bool" where
  "sb_inv st sref \<longleftrightarrow>
     catalog_loaded st \<and> distinct (map fst sref) \<and> distinct (map snd sref)
     \<and> list_all (\<lambda>(d, a). length catalog_store \<le> a \<and> a < length st) sref"

subsection \<open>Observations on scoreboards and delta-sets\<close>

text \<open>
  The keys of a scoreboard, dimension by dimension and in iteration order; the lookup
  \<^verbatim>\<open>d[dim][label]\<close> as an option (a scoreboard and a delta-set have the same shape);
  the sum of the deltas that a list of changes, and a delta-set, name for one label; and
  the well-formedness of a delta-set that is a Python dict of dicts: no key occurs twice.
\<close>

definition label_keys :: "(string \<times> (string \<times> int) list) list \<Rightarrow> (string \<times> string list) list" where
  "label_keys sc = map (\<lambda>(dim, row). (dim, map fst row)) sc"

definition score_at :: "(string \<times> (string \<times> int) list) list \<Rightarrow> string \<Rightarrow> string \<Rightarrow> int option" where
  "score_at sc dim label = (case map_of sc dim of None \<Rightarrow> None | Some row \<Rightarrow> map_of row label)"

fun changes_total :: "(string \<times> int) list \<Rightarrow> string \<Rightarrow> int" where
  "changes_total [] label = 0"
| "changes_total ((l, delta) # rest) label = (if l = label then delta else 0) + changes_total rest label"

fun delta_total :: "delta_set \<Rightarrow> string \<Rightarrow> string \<Rightarrow> int" where
  "delta_total [] dim label = 0"
| "delta_total ((d, changes) # rest) dim label =
     (if d = dim then changes_total changes label else 0) + delta_total rest dim label"

definition wf_delta_set :: "delta_set \<Rightarrow> bool" where
  "wf_delta_set deltas \<longleftrightarrow>
     distinct (map fst deltas) \<and> list_all (\<lambda>(dim, changes). distinct (map fst changes)) deltas"

definition canonical_label_keys :: "(string \<times> string list) list" where
  "canonical_label_keys =
    [(''acidity'', ACIDITY), (''caffeine'', CAFFEINE), (''roast'', ROAST),
     (''flavor'', FLAVOR), (''process'', PROCESS), (''brew'', BREW),
     (''bean_pref'', [''arabica'', ''blend'', ''robusta''])]"

text \<open>
  What one selected flavor adds to the score of a (dimension, label), and the explanation
  entry it records: nothing for a value that is not a key of \<^verbatim>\<open>FLAVOR_RULES\<close>.
\<close>

definition flavor_contrib :: "string \<Rightarrow> string \<Rightarrow> string \<Rightarrow> int" where
  "flavor_contrib f dim label =
     (case map_of FLAVOR_RULES f of
        None \<Rightarrow> 0
      | Some (deltas, reason, r_weight) \<Rightarrow> delta_total deltas dim label)"

definition flavor_reason :: "string \<Rightarrow> (string \<times> int) list" where
  "flavor_reason f =
     (case map_of FLAVOR_RULES f of
        None \<Rightarrow> []
      | Some (deltas, reason, r_weight) \<Rightarrow> [(reason, r_weight)])"

text \<open>An answer set in which no value is a key of the rule catalog.\<close>

definition no_signal :: UserPref where
  "no_signal =
    \<lparr>stomach_sensitivity = ''none'', caffeine_sensitivity = '''', time_of_day = ''night'',
     purpose = ''fun'', flavor_direction = [''smoky'', ''bitter''], brew_method = ''moka''\<rparr>"

section \<open>Properties\<close>

subsection \<open>Delta application keeps the keys and adds the deltas\<close>

lemma keys_apply_changes: "map fst (apply_changes row changes) = map fst row"
proof (induction changes arbitrary: row)
  case Nil
  show ?case by simp
next
  case (Cons c changes)
  obtain label delta where c: "c = (label, delta)" by (cases c)
  show ?case
  proof (cases "map_of row label")
    case None
    with c Cons.IH show ?thesis by simp
  next
    case (Some v)
    then have "label \<in> set (map fst row)"
      by (metis map_of_eq_None_iff option.distinct(1) set_map)
    then have "map fst (AList.update label (v + delta) row) = map fst row"
      by (simp add: update_keys)
    with c Some Cons.IH [of "AList.update label (v + delta) row"] show ?thesis by simp
  qed
qed

lemma label_keys_update:
  assumes "map_of sc dim = Some row" and "map fst row' = map fst row"
  shows "label_keys (AList.update dim row' sc) = label_keys sc"
  using assms by (induction sc) (auto simp: label_keys_def)

lemma label_keys_apply_delta: "label_keys (apply_delta sc deltas) = label_keys sc"
proof (induction deltas arbitrary: sc)
  case Nil
  show ?case by simp
next
  case (Cons c deltas)
  obtain dim changes where c: "c = (dim, changes)" by (cases c)
  show ?case
  proof (cases "map_of sc dim")
    case None
    with c Cons.IH show ?thesis by simp
  next
    case (Some row)
    have "label_keys (AList.update dim (apply_changes row changes) sc) = label_keys sc"
      using Some by (rule label_keys_update) (rule keys_apply_changes)
    with c Some Cons.IH [of "AList.update dim (apply_changes row changes) sc"]
    show ?thesis by simp
  qed
qed

lemma map_of_apply_changes:
  "map_of (apply_changes row changes) label =
     map_option (\<lambda>v. v + changes_total changes label) (map_of row label)"
proof (induction changes arbitrary: row)
  case Nil
  show ?case by (simp add: option.map_ident)
next
  case (Cons c changes)
  obtain l delta where c: "c = (l, delta)" by (cases c)
  show ?case
  proof (cases "map_of row l")
    case None
    with c Cons.IH [of row] show ?thesis by (cases "l = label") auto
  next
    case (Some v)
    with c Cons.IH [of "AList.update l (v + delta) row"] show ?thesis
      by (cases "l = label") (auto simp: update_conv' option.map_comp comp_def algebra_simps)
  qed
qed

lemma score_at_update:
  "score_at (AList.update d row sc) dim label =
     (if d = dim then map_of row label else score_at sc dim label)"
  by (simp add: score_at_def update_conv')

lemma score_at_apply_delta_total:
  "score_at (apply_delta sc deltas) dim label =
     map_option (\<lambda>v. v + delta_total deltas dim label) (score_at sc dim label)"
proof (induction deltas arbitrary: sc)
  case Nil
  show ?case by (simp add: option.map_ident)
next
  case (Cons c deltas)
  obtain d changes where c: "c = (d, changes)" by (cases c)
  show ?case
  proof (cases "map_of sc d")
    case None
    with c Cons.IH [of sc] show ?thesis
      by (cases "d = dim") (auto simp: score_at_def)
  next
    case (Some row)
    have "score_at (AList.update d (apply_changes row changes) sc) dim label =
        map_option (\<lambda>v. v + (if d = dim then changes_total changes label else 0))
          (score_at sc dim label)"
      using Some unfolding score_at_update
      by (auto simp: map_of_apply_changes score_at_def option.map_ident)
    with c Some Cons.IH [of "AList.update d (apply_changes row changes) sc"]
    show ?thesis
      by (simp add: option.map_comp comp_def algebra_simps)
  qed
qed

lemma changes_total_distinct:
  "distinct (map fst changes) \<Longrightarrow>
     changes_total changes label = (case map_of changes label of None \<Rightarrow> 0 | Some delta \<Rightarrow> delta)"
proof (induction changes)
  case Nil
  show ?case by simp
next
  case (Cons c changes)
  obtain l delta where c: "c = (l, delta)" by (cases c)
  show ?case
  proof (cases "l = label")
    case True
    with c Cons.prems have "map_of changes label = None"
      by (simp add: map_of_eq_None_iff)
    with c True Cons show ?thesis by simp
  next
    case False
    with c Cons show ?thesis by simp
  qed
qed

lemma delta_total_distinct:
  "wf_delta_set deltas \<Longrightarrow>
     delta_total deltas dim label = (case score_at deltas dim label of None \<Rightarrow> 0 | Some delta \<Rightarrow> delta)"
proof (induction deltas)
  case Nil
  show ?case by (simp add: score_at_def)
next
  case (Cons c deltas)
  obtain d changes where c: "c = (d, changes)" by (cases c)
  from Cons.prems c have wf: "wf_delta_set deltas" and dc: "distinct (map fst changes)"
    and nd: "d \<notin> fst ` set deltas"
    by (auto simp: wf_delta_set_def)
  show ?case
  proof (cases "d = dim")
    case True
    with nd have "map_of deltas dim = None" by (simp add: map_of_eq_None_iff)
    then have "delta_total deltas dim label = 0"
      using Cons.IH [OF wf] by (simp add: score_at_def)
    with c True dc show ?thesis
      by (simp add: score_at_def changes_total_distinct)
  next
    case False
    with c Cons.IH [OF wf] show ?thesis by (simp add: score_at_def)
  qed
qed

subsection \<open>Resolution and the main function\<close>

lemma argmax_loop_Some:
  "(argmax_loop (Some (b, bs)) xs = Some (b, bs) \<and> (\<forall>p\<in>set xs. snd p \<le> bs)) \<or>
   (\<exists>pre k v post. xs = pre @ (k, v) # post \<and> argmax_loop (Some (b, bs)) xs = Some (k, v)
      \<and> bs < v \<and> (\<forall>p\<in>set pre. snd p < v) \<and> (\<forall>p\<in>set post. snd p \<le> v))"
proof (induction xs arbitrary: b bs)
  case Nil
  show ?case by simp
next
  case (Cons x xs)
  obtain k v where x: "x = (k, v)" by (cases x)
  show ?case
  proof (cases "v > bs")
    case True
    from Cons.IH [of k v] show ?thesis
    proof
      assume "argmax_loop (Some (k, v)) xs = Some (k, v) \<and> (\<forall>p\<in>set xs. snd p \<le> v)"
      with x True have "x # xs = [] @ (k, v) # xs \<and> argmax_loop (Some (b, bs)) (x # xs) = Some (k, v)
          \<and> bs < v \<and> (\<forall>p\<in>set []. snd p < v) \<and> (\<forall>p\<in>set xs. snd p \<le> v)"
        by simp
      then show ?thesis by blast
    next
      assume "\<exists>pre k' v' post. xs = pre @ (k', v') # post
          \<and> argmax_loop (Some (k, v)) xs = Some (k', v')
          \<and> v < v' \<and> (\<forall>p\<in>set pre. snd p < v') \<and> (\<forall>p\<in>set post. snd p \<le> v')"
      then obtain pre k' v' post where h: "xs = pre @ (k', v') # post"
          "argmax_loop (Some (k, v)) xs = Some (k', v')" "v < v'"
          "\<forall>p\<in>set pre. snd p < v'" "\<forall>p\<in>set post. snd p \<le> v'"
        by blast
      with x True have "x # xs = (x # pre) @ (k', v') # post
          \<and> argmax_loop (Some (b, bs)) (x # xs) = Some (k', v')
          \<and> bs < v' \<and> (\<forall>p\<in>set (x # pre). snd p < v') \<and> (\<forall>p\<in>set post. snd p \<le> v')"
        by simp
      then show ?thesis by blast
    qed
  next
    case False
    from Cons.IH [of b bs] show ?thesis
    proof
      assume "argmax_loop (Some (b, bs)) xs = Some (b, bs) \<and> (\<forall>p\<in>set xs. snd p \<le> bs)"
      with x False show ?thesis by simp
    next
      assume "\<exists>pre k' v' post. xs = pre @ (k', v') # post
          \<and> argmax_loop (Some (b, bs)) xs = Some (k', v')
          \<and> bs < v' \<and> (\<forall>p\<in>set pre. snd p < v') \<and> (\<forall>p\<in>set post. snd p \<le> v')"
      then obtain pre k' v' post where h: "xs = pre @ (k', v') # post"
          "argmax_loop (Some (b, bs)) xs = Some (k', v')" "bs < v'"
          "\<forall>p\<in>set pre. snd p < v'" "\<forall>p\<in>set post. snd p \<le> v'"
        by blast
      with x False have "x # xs = (x # pre) @ (k', v') # post
          \<and> argmax_loop (Some (b, bs)) (x # xs) = Some (k', v')
          \<and> bs < v' \<and> (\<forall>p\<in>set (x # pre). snd p < v') \<and> (\<forall>p\<in>set post. snd p \<le> v')"
        by simp
      then show ?thesis by blast
    qed
  qed
qed

lemma argmax_label_split:
  assumes "score_map \<noteq> []"
  shows "\<exists>pre k v post. score_map = pre @ (k, v) # post \<and> argmax_label score_map = Some k
           \<and> (\<forall>p\<in>set pre. snd p < v) \<and> (\<forall>p\<in>set post. snd p \<le> v)"
proof -
  from assms obtain k0 v0 rest where sm: "score_map = (k0, v0) # rest"
    by (cases score_map) auto
  from argmax_loop_Some [of k0 v0 rest] show ?thesis
  proof
    assume "argmax_loop (Some (k0, v0)) rest = Some (k0, v0) \<and> (\<forall>p\<in>set rest. snd p \<le> v0)"
    with sm have "score_map = [] @ (k0, v0) # rest \<and> argmax_label score_map = Some k0
        \<and> (\<forall>p\<in>set []. snd p < v0) \<and> (\<forall>p\<in>set rest. snd p \<le> v0)"
      by (simp add: argmax_label_def)
    then show ?thesis by blast
  next
    assume "\<exists>pre k v post. rest = pre @ (k, v) # post
        \<and> argmax_loop (Some (k0, v0)) rest = Some (k, v)
        \<and> v0 < v \<and> (\<forall>p\<in>set pre. snd p < v) \<and> (\<forall>p\<in>set post. snd p \<le> v)"
    then obtain pre k v post where h: "rest = pre @ (k, v) # post"
        "argmax_loop (Some (k0, v0)) rest = Some (k, v)" "v0 < v"
        "\<forall>p\<in>set pre. snd p < v" "\<forall>p\<in>set post. snd p \<le> v"
      by blast
    with sm have "score_map = ((k0, v0) # pre) @ (k, v) # post \<and> argmax_label score_map = Some k
        \<and> (\<forall>p\<in>set ((k0, v0) # pre). snd p < v) \<and> (\<forall>p\<in>set post. snd p \<le> v)"
      by (simp add: argmax_label_def)
    then show ?thesis by blast
  qed
qed

lemma argmax_label_in_keys:
  assumes "row \<noteq> []"
  shows "\<exists>l. argmax_label row = Some l \<and> l \<in> set (map fst row)"
proof -
  from argmax_label_split [OF assms] obtain pre k v post
    where "row = pre @ (k, v) # post" "argmax_label row = Some k" by blast
  then show ?thesis by auto
qed

lemma label_keys_single_choice_loop:
  "label_keys (fst (single_choice_loop st fvs)) = label_keys (fst st)"
proof (induction st fvs rule: single_choice_loop.induct)
  case (1 st)
  show ?case by simp
next
  case (2 sc rs field_name val rest)
  then show ?case
    by (simp add: Let_def label_keys_apply_delta split: option.splits prod.splits)
qed

lemma label_keys_flavor_loop:
  "label_keys (fst (flavor_loop st fs)) = label_keys (fst st)"
proof (induction st fs rule: flavor_loop.induct)
  case (1 st)
  show ?case by simp
next
  case (2 sc rs f rest)
  then show ?case
    by (simp add: label_keys_apply_delta split: option.splits prod.splits)
qed

lemma label_keys_collect: "label_keys (fst (collect user)) = label_keys init_scoreboard"
  by (simp only: collect_def label_keys_flavor_loop label_keys_single_choice_loop fst_conv)

lemma map_of_label_keys: "map_of (label_keys sc) dim = map_option (map fst) (map_of sc dim)"
  by (induction sc) (auto simp: label_keys_def)

lemma resolve_returns:
  assumes "label_keys sc = label_keys init_scoreboard"
    and "map_of (label_keys init_scoreboard) dim = Some (l0 # ls)"
  shows "\<exists>l. resolve sc dim = Inr (Some l) \<and> l \<in> set (l0 # ls)"
proof -
  from assms have "map_option (map fst) (map_of sc dim) = Some (l0 # ls)"
    by (simp add: map_of_label_keys [symmetric])
  then obtain row where row: "map_of sc dim = Some row" "map fst row = l0 # ls"
    by (cases "map_of sc dim") auto
  then have "row \<noteq> []" by auto
  from argmax_label_in_keys [OF this] row show ?thesis
    by (auto simp: resolve_def)
qed

lemma canonical_keys: "label_keys init_scoreboard = canonical_label_keys"
  by (simp add: label_keys_def init_scoreboard_def canonical_label_keys_def comp_def)

lemma build_profile_result:
  "\<exists>r. build_profile user = Inr r
     \<and> resolve (fst (collect user)) ''acidity'' = Inr (acidity_level (profile r))
     \<and> resolve (fst (collect user)) ''caffeine'' = Inr (caffeine_tendency (profile r))
     \<and> resolve (fst (collect user)) ''roast'' = Inr (roast_level (profile r))
     \<and> resolve (fst (collect user)) ''flavor'' = Inr (Profile.flavor_direction (profile r))
     \<and> resolve (fst (collect user)) ''process'' = Inr (process_preference (profile r))
     \<and> resolve (fst (collect user)) ''brew'' = Inr (brew_suitability (profile r))
     \<and> (\<exists>bp. resolve (fst (collect user)) ''bean_pref'' = Inr (Some bp)
           \<and> bean_preference (profile r) =
               (if (caffeine_sensitivity user = ''high'' \<or> stomach_sensitivity user = ''high'')
                   \<and> bp = ''robusta''
                then Some ''arabica'' else Some bp))
     \<and> scores r = fst (collect user)
     \<and> reasons r = top_reasons (snd (collect user)) 4
     \<and> disclaimer r = ''This is a preference-based recommendation and not medical advice.''"
proof -
  note k = label_keys_collect [of user]
  obtain ta where ta: "resolve (fst (collect user)) ''acidity'' = Inr (Some ta)"
    using resolve_returns [OF k, of "''acidity''"]
    by (auto simp: canonical_keys canonical_label_keys_def ACIDITY_def)
  obtain tc where tc: "resolve (fst (collect user)) ''caffeine'' = Inr (Some tc)"
    using resolve_returns [OF k, of "''caffeine''"]
    by (auto simp: canonical_keys canonical_label_keys_def CAFFEINE_def)
  obtain tr where tr: "resolve (fst (collect user)) ''roast'' = Inr (Some tr)"
    using resolve_returns [OF k, of "''roast''"]
    by (auto simp: canonical_keys canonical_label_keys_def ROAST_def)
  obtain tf where tf: "resolve (fst (collect user)) ''flavor'' = Inr (Some tf)"
    using resolve_returns [OF k, of "''flavor''"]
    by (auto simp: canonical_keys canonical_label_keys_def FLAVOR_def)
  obtain tp where tp: "resolve (fst (collect user)) ''process'' = Inr (Some tp)"
    using resolve_returns [OF k, of "''process''"]
    by (auto simp: canonical_keys canonical_label_keys_def PROCESS_def)
  obtain tb where tb: "resolve (fst (collect user)) ''brew'' = Inr (Some tb)"
    using resolve_returns [OF k, of "''brew''"]
    by (auto simp: canonical_keys canonical_label_keys_def BREW_def)
  obtain bp where bp: "resolve (fst (collect user)) ''bean_pref'' = Inr (Some bp)"
    using resolve_returns [OF k, of "''bean_pref''"]
    by (auto simp: canonical_keys canonical_label_keys_def)
  define r where "r =
    \<lparr>profile =
       \<lparr>acidity_level = Some ta, caffeine_tendency = Some tc, roast_level = Some tr,
        flavor_direction = Some tf, process_preference = Some tp,
        brew_suitability = Some tb,
        bean_preference =
          (if (caffeine_sensitivity user = ''high'' \<or> stomach_sensitivity user = ''high'')
              \<and> bp = ''robusta''
           then Some ''arabica'' else Some bp)\<rparr>,
     scores = fst (collect user),
     reasons = top_reasons (snd (collect user)) 4,
     disclaimer = ''This is a preference-based recommendation and not medical advice.''\<rparr>"
  have b: "build_profile user = Inr r"
    unfolding build_profile_def case_prod_beta ta tc tr tf tp tb bp r_def
    by (simp add: then_do_def Let_def)
  have s: "acidity_level (profile r) = Some ta" "caffeine_tendency (profile r) = Some tc"
    "roast_level (profile r) = Some tr" "Profile.flavor_direction (profile r) = Some tf"
    "process_preference (profile r) = Some tp" "brew_suitability (profile r) = Some tb"
    "scores r = fst (collect user)" "reasons r = top_reasons (snd (collect user)) 4"
    "disclaimer r = ''This is a preference-based recommendation and not medical advice.''"
    by (simp_all add: r_def)
  have bn: "bean_preference (profile r) =
      (if (caffeine_sensitivity user = ''high'' \<or> stomach_sensitivity user = ''high'')
          \<and> bp = ''robusta''
       then Some ''arabica'' else Some bp)"
    by (simp add: r_def)
  from bp bn have e: "\<exists>bp. resolve (fst (collect user)) ''bean_pref'' = Inr (Some bp)
           \<and> bean_preference (profile r) =
               (if (caffeine_sensitivity user = ''high'' \<or> stomach_sensitivity user = ''high'')
                   \<and> bp = ''robusta''
                then Some ''arabica'' else Some bp)"
    by blast
  show ?thesis
    by (rule exI [of _ r]) (simp only: b s ta tc tr tf tp tb e simp_thms)
qed

subsection \<open>The two loops of the main function\<close>

lemma flavor_loop_no_match:
  "\<forall>f\<in>set fs. map_of FLAVOR_RULES f = None \<Longrightarrow> flavor_loop st fs = st"
proof (induction st fs rule: flavor_loop.induct)
  case (1 st)
  show ?case by simp
next
  case (2 sc rs f rest)
  then show ?case by simp
qed

lemma flavor_loop_append:
  "flavor_loop st (fs @ gs) = flavor_loop (flavor_loop st fs) gs"
proof (induction st fs rule: flavor_loop.induct)
  case (1 st)
  show ?case by simp
next
  case (2 sc rs f rest)
  then show ?case by (simp split: option.splits prod.splits)
qed

lemma flavor_loop_skip:
  "map_of FLAVOR_RULES x = None \<Longrightarrow> flavor_loop st (x # rest) = flavor_loop st rest"
  by (cases st) simp

lemma collect_no_match:
  assumes "map_of (field_rules ''stomach_sensitivity'') (stomach_sensitivity user) = None"
    and "map_of (field_rules ''caffeine_sensitivity'') (caffeine_sensitivity user) = None"
    and "map_of (field_rules ''time_of_day'') (time_of_day user) = None"
    and "map_of (field_rules ''purpose'') (purpose user) = None"
    and "map_of (field_rules ''brew_method'') (brew_method user) = None"
    and "\<forall>f\<in>set (UserPref.flavor_direction user). map_of FLAVOR_RULES f = None"
  shows "collect user = (init_scoreboard, [])"
proof -
  have "single_choice_loop (init_scoreboard, [])
          [(''stomach_sensitivity'', stomach_sensitivity user),
           (''caffeine_sensitivity'', caffeine_sensitivity user),
           (''time_of_day'', time_of_day user),
           (''purpose'', purpose user),
           (''brew_method'', brew_method user)] = (init_scoreboard, [])"
    using assms(1-5)
    by (simp only: single_choice_loop.simps Let_def option.case)
  with flavor_loop_no_match [OF assms(6)] show ?thesis
    by (simp only: collect_def)
qed

lemma resolve_init:
  "resolve init_scoreboard ''acidity'' = Inr (Some ''low'')"
  "resolve init_scoreboard ''caffeine'' = Inr (Some ''low'')"
  "resolve init_scoreboard ''roast'' = Inr (Some ''light'')"
  "resolve init_scoreboard ''flavor'' = Inr (Some ''nutty_chocolate'')"
  "resolve init_scoreboard ''process'' = Inr (Some ''washed'')"
  "resolve init_scoreboard ''brew'' = Inr (Some ''filter'')"
  by (simp_all add: resolve_def init_scoreboard_def argmax_label_def
      ACIDITY_def CAFFEINE_def ROAST_def FLAVOR_def PROCESS_def BREW_def)

lemma no_signal_hyps:
  "map_of (field_rules ''stomach_sensitivity'') (stomach_sensitivity no_signal) = None"
  "map_of (field_rules ''caffeine_sensitivity'') (caffeine_sensitivity no_signal) = None"
  "map_of (field_rules ''time_of_day'') (time_of_day no_signal) = None"
  "map_of (field_rules ''purpose'') (purpose no_signal) = None"
  "map_of (field_rules ''brew_method'') (brew_method no_signal) = None"
  "\<forall>f\<in>set (UserPref.flavor_direction no_signal). map_of FLAVOR_RULES f = None"
  by code_simp+

lemma flavor_loop_scores:
  "score_at (fst (flavor_loop st fs)) dim label =
     map_option (\<lambda>v. v + sum_list (map (\<lambda>g. flavor_contrib g dim label) fs))
       (score_at (fst st) dim label)"
proof (induction st fs rule: flavor_loop.induct)
  case (1 st)
  show ?case by (simp add: option.map_ident)
next
  case (2 sc rs f rest)
  show ?case
  proof (cases "map_of FLAVOR_RULES f")
    case None
    with 2 show ?thesis by (simp add: flavor_contrib_def)
  next
    case (Some rl)
    obtain deltas reason r_weight where rl: "rl = (deltas, reason, r_weight)"
      by (cases rl)
    from 2(2) [OF Some [unfolded rl] refl refl] Some rl show ?thesis
      by (simp add: flavor_contrib_def score_at_apply_delta_total option.map_comp comp_def
          algebra_simps)
  qed
qed

lemma flavor_loop_reasons:
  "snd (flavor_loop st fs) = snd st @ concat (map flavor_reason fs)"
proof (induction st fs rule: flavor_loop.induct)
  case (1 st)
  show ?case by simp
next
  case (2 sc rs f rest)
  show ?case
  proof (cases "map_of FLAVOR_RULES f")
    case None
    with 2 show ?thesis by (simp add: flavor_reason_def)
  next
    case (Some rl)
    obtain deltas reason r_weight where rl: "rl = (deltas, reason, r_weight)"
      by (cases rl)
    from 2(2) [OF Some [unfolded rl] refl refl] Some rl show ?thesis
      by (simp add: flavor_reason_def)
  qed
qed

lemma sum_list_removeAll:
  "sum_list (map h fs) = sum_list (map h (removeAll f fs)) + int (count_list fs f) * (h f :: int)"
  by (induction fs) (simp_all add: algebra_simps)

lemma count_list_append: "count_list (xs @ ys) x = count_list xs x + count_list ys x"
  by (induction xs) simp_all

lemma count_list_concat_removeAll:
  "count_list (concat (map g fs)) x =
     count_list (concat (map g (removeAll f fs))) x + count_list fs f * count_list (g f) x"
  by (induction fs) (simp_all add: count_list_append algebra_simps)

lemma flavor_rules_wf: "list_all (\<lambda>(f, deltas, reason, r_weight). wf_delta_set deltas) FLAVOR_RULES"
  by code_simp

lemma scenario_A_scores:
  "fst (collect scenario_A) =
    [(''acidity'', [(''low'', 6), (''medium'', 2), (''high'', - 3)]),
     (''caffeine'', [(''low'', 10), (''medium'', 3), (''high'', - 9)]),
     (''roast'', [(''light'', 1), (''medium'', 7), (''dark'', 3)]),
     (''flavor'',
      [(''nutty_chocolate'', 0), (''sweet_caramel'', 0), (''fruity'', 0),
       (''floral'', 3), (''spicy'', 0)]),
     (''process'',
      [(''washed'', 2), (''natural'', 0), (''honey'', 0), (''anaerobic'', 0), (''any'', 1)]),
     (''brew'', [(''filter'', 3), (''espresso'', 0), (''both'', 1)]),
     (''bean_pref'', [(''arabica'', 7), (''blend'', 2), (''robusta'', - 16)])]"
  by code_simp

subsection \<open>The explanation ranker\<close>




subsection \<open>Scores and explanation entries of the flavor rules\<close>

lemma score_at_canonical:
  assumes "label_keys sc = canonical_label_keys"
    and "map_of canonical_label_keys dim = Some labels" and "label \<in> set labels"
  shows "\<exists>v. score_at sc dim label = Some v"
proof -
  from assms(1,2) have "map_option (map fst) (map_of sc dim) = Some labels"
    by (simp add: map_of_label_keys [symmetric])
  then obtain row where row: "map_of sc dim = Some row" "map fst row = labels"
    by (cases "map_of sc dim") auto
  with assms(3) have "label \<in> fst ` set row" by (metis list.set_map)
  then have "map_of row label \<noteq> None" by (simp add: map_of_eq_None_iff)
  with row show ?thesis by (auto simp: score_at_def)
qed

lemma delta_total_absent: "dim \<notin> fst ` set deltas \<Longrightarrow> delta_total deltas dim label = 0"
  by (induction deltas) auto

lemma rules_no_flavor:
  "list_all (\<lambda>(field_name, rs).
      list_all (\<lambda>(val, deltas, reason, r_weight). ''flavor'' \<notin> set (map fst deltas)) rs) RULES"
  by code_simp

lemma field_rules_no_flavor:
  assumes "map_of (field_rules field_name) val = Some (deltas, reason, r_weight)"
  shows "''flavor'' \<notin> fst ` set deltas"
proof (cases "map_of RULES field_name")
  case None
  with assms show ?thesis by (simp add: field_rules_def)
next
  case (Some rs)
  then have m: "(field_name, rs) \<in> set RULES" by (rule map_of_SomeD)
  from assms Some have n: "(val, deltas, reason, r_weight) \<in> set rs"
    by (auto simp: field_rules_def dest: map_of_SomeD)
  let ?P = "\<lambda>(val, deltas, reason, r_weight). ''flavor'' \<notin> set (map fst deltas)"
  have "\<forall>x\<in>set RULES. (\<lambda>(field_name, rs). list_all ?P rs) x"
    using rules_no_flavor by (simp only: list_all_iff)
  from bspec [OF this m] have "\<forall>x\<in>set rs. ?P x"
    by (simp add: list_all_iff)
  from bspec [OF this n] show ?thesis by simp
qed

lemma single_choice_loop_flavor:
  "score_at (fst (single_choice_loop st fvs)) ''flavor'' label = score_at (fst st) ''flavor'' label"
proof (induction st fvs rule: single_choice_loop.induct)
  case (1 st)
  show ?case by simp
next
  case (2 sc rs field_name val rest)
  show ?case
  proof (cases "map_of (field_rules field_name) val")
    case None
    with 2(1) show ?thesis by (simp add: Let_def)
  next
    case (Some rl)
    obtain deltas reason r_weight where rl: "rl = (deltas, reason, r_weight)"
      by (cases rl)
    from Some rl have "delta_total deltas ''flavor'' label = 0"
      by (simp add: delta_total_absent field_rules_no_flavor)
    with 2(2) [OF refl Some [unfolded rl] refl refl] Some rl show ?thesis
      by (simp add: Let_def score_at_apply_delta_total option.map_ident)
  qed
qed

lemma flavor_rules_own_label:
  "list_all (\<lambda>(g, deltas, reason, r_weight).
      wf_delta_set deltas \<and> map_of deltas ''flavor'' = Some [(g, 3)]) FLAVOR_RULES"
  by code_simp

lemma flavor_rules_keys: "map fst FLAVOR_RULES = FLAVOR"
  by code_simp

lemma flavor_contrib_own:
  assumes "map_of FLAVOR_RULES f = Some rl"
  shows "flavor_contrib g ''flavor'' f = (if g = f then 3 else 0)"
proof (cases "map_of FLAVOR_RULES g")
  case None
  with assms have "g \<noteq> f" by auto
  with None show ?thesis by (simp add: flavor_contrib_def)
next
  case (Some rg)
  obtain deltas reason r_weight where rg: "rg = (deltas, reason, r_weight)"
    by (cases rg)
  from Some rg have "(g, deltas, reason, r_weight) \<in> set FLAVOR_RULES"
    by (auto dest: map_of_SomeD)
  with flavor_rules_own_label
  have wf: "wf_delta_set deltas" and own: "map_of deltas ''flavor'' = Some [(g, 3)]"
    by (auto simp: list_all_iff)
  from own have "score_at deltas ''flavor'' f = (if g = f then Some 3 else None)"
    by (simp add: score_at_def)
  with Some rg show ?thesis
    by (simp add: flavor_contrib_def delta_total_distinct [OF wf])
qed

lemma sum_list_own: "sum_list (map (\<lambda>g. if g = f then 3 else 0) fs) = 3 * int (count_list fs f)"
  by (induction fs) simp_all

lemma init_flavor_zero:
  assumes "map_of FLAVOR_RULES f = Some rl"
  shows "score_at init_scoreboard ''flavor'' f = Some 0"
proof -
  from assms have "f \<in> fst ` set FLAVOR_RULES"
    by (metis map_of_eq_None_iff option.distinct(1))
  then have "f \<in> set FLAVOR" by (simp add: flavor_rules_keys [symmetric])
  then show ?thesis
    by (auto simp: score_at_def init_scoreboard_def FLAVOR_def)
qed

lemma collect_flavor_score:
  assumes "map_of FLAVOR_RULES f = Some rl"
  shows "score_at (fst (collect user)) ''flavor'' f
           = Some (3 * int (count_list (UserPref.flavor_direction user) f))"
proof -
  have "score_at (fst (collect user)) ''flavor'' f =
      map_option (\<lambda>v. v + sum_list (map (\<lambda>g. flavor_contrib g ''flavor'' f)
                                      (UserPref.flavor_direction user)))
        (score_at init_scoreboard ''flavor'' f)"
    unfolding collect_def flavor_loop_scores single_choice_loop_flavor by simp
  then show ?thesis
    by (simp add: flavor_contrib_own [OF assms] init_flavor_zero [OF assms] sum_list_own)
qed

lemma rules_weight_not_55:
  "list_all (\<lambda>(field_name, rs).
      list_all (\<lambda>(val, deltas, reason, r_weight). r_weight \<noteq> 55) rs) RULES"
  by code_simp

lemma flavor_rules_weight_55:
  "list_all (\<lambda>(g, deltas, reason, r_weight). r_weight = 55) FLAVOR_RULES"
  by code_simp

lemma flavor_rules_reasons_distinct:
  "distinct (map (\<lambda>(g, deltas, reason, r_weight). reason) FLAVOR_RULES)"
  by code_simp

lemma field_rules_weight:
  assumes "map_of (field_rules field_name) val = Some (deltas, reason, r_weight)"
  shows "r_weight \<noteq> 55"
proof (cases "map_of RULES field_name")
  case None
  with assms show ?thesis by (simp add: field_rules_def)
next
  case (Some rs)
  then have m: "(field_name, rs) \<in> set RULES" by (rule map_of_SomeD)
  from assms Some have n: "(val, deltas, reason, r_weight) \<in> set rs"
    by (auto simp: field_rules_def dest: map_of_SomeD)
  let ?P = "\<lambda>(val, deltas, reason, r_weight). r_weight \<noteq> (55 :: int)"
  have "\<forall>x\<in>set RULES. (\<lambda>(field_name, rs). list_all ?P rs) x"
    using rules_weight_not_55 by (simp only: list_all_iff)
  from bspec [OF this m] have "\<forall>x\<in>set rs. ?P x"
    by (simp add: list_all_iff)
  from bspec [OF this n] show ?thesis by simp
qed

lemma single_choice_loop_weights:
  "list_all (\<lambda>e. snd e \<noteq> 55) (snd st) \<Longrightarrow>
     list_all (\<lambda>e. snd e \<noteq> 55) (snd (single_choice_loop st fvs))"
proof (induction st fvs rule: single_choice_loop.induct)
  case (1 st)
  then show ?case by simp
next
  case (2 sc rs field_name val rest)
  show ?case
  proof (cases "map_of (field_rules field_name) val")
    case None
    with 2(1) [OF refl None] 2(3) show ?thesis by (simp add: Let_def)
  next
    case (Some rl)
    obtain deltas reason r_weight where rl: "rl = (deltas, reason, r_weight)"
      by (cases rl)
    from Some rl have "r_weight \<noteq> 55" by (simp add: field_rules_weight)
    with 2(3) have "list_all (\<lambda>e. snd e \<noteq> 55) (snd (apply_delta sc deltas, rs @ [(reason, r_weight)]))"
      by simp
    from 2(2) [OF refl Some [unfolded rl] refl refl this] Some rl show ?thesis
      by (simp add: Let_def)
  qed
qed

lemma flavor_reason_other:
  assumes f: "map_of FLAVOR_RULES f = Some (deltas, reason, r_weight)" and "g \<noteq> f"
  shows "count_list (flavor_reason g) (reason, r_weight) = 0"
proof (cases "map_of FLAVOR_RULES g")
  case None
  then show ?thesis by (simp add: flavor_reason_def)
next
  case (Some rg)
  obtain dg rsn wg where rg: "rg = (dg, rsn, wg)" by (cases rg)
  let ?h = "\<lambda>(g, deltas, reason, r_weight). reason :: string"
  from f have mf: "(f, deltas, reason, r_weight) \<in> set FLAVOR_RULES" by (rule map_of_SomeD)
  from Some rg have mg: "(g, dg, rsn, wg) \<in> set FLAVOR_RULES" by (auto dest: map_of_SomeD)
  from flavor_rules_reasons_distinct have "inj_on ?h (set FLAVOR_RULES)"
    by (simp add: distinct_map)
  from inj_onD [OF this _ mg mf] assms(2) have "rsn \<noteq> reason" by auto
  with Some rg show ?thesis by (simp add: flavor_reason_def)
qed

lemma count_list_concat_others:
  assumes "map_of FLAVOR_RULES f = Some (deltas, reason, r_weight)"
  shows "count_list (concat (map flavor_reason (removeAll f fs))) (reason, r_weight) = 0"
  by (induction fs) (auto simp: count_list_append flavor_reason_other [OF assms])

lemma collect_reason_count:
  assumes "map_of FLAVOR_RULES f = Some (deltas, reason, r_weight)"
  shows "count_list (snd (collect user)) (reason, r_weight)
           = count_list (UserPref.flavor_direction user) f"
proof -
  let ?fs = "UserPref.flavor_direction user"
  define st0 where "st0 =
    single_choice_loop (init_scoreboard, [])
      [(''stomach_sensitivity'', stomach_sensitivity user),
       (''caffeine_sensitivity'', caffeine_sensitivity user),
       (''time_of_day'', time_of_day user),
       (''purpose'', purpose user),
       (''brew_method'', brew_method user)]"
  have cu: "collect user = flavor_loop st0 ?fs"
    by (simp add: collect_def st0_def del: single_choice_loop.simps)
  from assms have "(f, deltas, reason, r_weight) \<in> set FLAVOR_RULES" by (rule map_of_SomeD)
  with flavor_rules_weight_55 have w: "r_weight = 55"
    by (auto simp: list_all_iff)
  have "list_all (\<lambda>e. snd e \<noteq> 55) (snd st0)"
    unfolding st0_def by (rule single_choice_loop_weights) simp
  with w have "(reason, r_weight) \<notin> set (snd st0)"
    by (auto simp: list_all_iff)
  then have z: "count_list (snd st0) (reason, r_weight) = 0"
    by (simp add: count_list_0_iff)
  have fr: "count_list (flavor_reason f) (reason, r_weight) = 1"
    using assms by (simp add: flavor_reason_def)
  show ?thesis
    unfolding cu flavor_loop_reasons count_list_append z
      count_list_concat_removeAll [of flavor_reason ?fs "(reason, r_weight)" f] fr
      count_list_concat_others [OF assms]
    by simp
qed

subsection \<open>The functions on objects compute the functions on values\<close>

lemma new_rows_Cons:
  "new_rows st ((k, row) # rest) =
     ((k, length st) # fst (new_rows (st @ [row]) rest), snd (new_rows (st @ [row]) rest))"
  by (simp split: prod.splits)

lemma new_rows_store: "snd (new_rows st d) = st @ map snd d"
proof (induction st d rule: new_rows.induct)
  case (1 st)
  show ?case by simp
next
  case (2 st k row rest)
  then show ?case by (simp add: new_rows_Cons del: new_rows.simps(2))
qed

lemma new_rows_keys: "map fst (fst (new_rows st d)) = map fst d"
proof (induction st d rule: new_rows.induct)
  case (1 st)
  show ?case by simp
next
  case (2 st k row rest)
  then show ?case by (simp add: new_rows_Cons del: new_rows.simps(2))
qed

lemma new_rows_addrs: "map snd (fst (new_rows st d)) = [length st ..< length st + length d]"
proof (induction st d rule: new_rows.induct)
  case (1 st)
  show ?case by simp
next
  case (2 st k row rest)
  have "[length st ..< length st + length ((k, row) # rest)]
      = length st # [Suc (length st) ..< length st + length ((k, row) # rest)]"
    by (rule upt_conv_Cons) simp
  with 2 show ?case
    by (simp add: new_rows_Cons del: new_rows.simps(2) upt_Suc)
qed

lemma new_rows_deref: "deref (st @ map snd d @ ext) (fst (new_rows st d)) = d"
proof (induction st d rule: new_rows.induct)
  case (1 st)
  show ?case by (simp add: deref_def)
next
  case (2 st k row rest)
  then show ?case by (simp add: new_rows_Cons deref_def del: new_rows.simps(2))
qed

lemma map_of_deref: "map_of (deref st sref) dim = map_option (\<lambda>a. st ! a) (map_of sref dim)"
  by (induction sref) (auto simp: deref_def)

lemma deref_update_other:
  "a \<notin> snd ` set refs \<Longrightarrow> deref (st[a := x]) refs = deref st refs"
  by (induction refs) (auto simp: deref_def)

lemma deref_update:
  assumes "distinct (map fst sref)" and "distinct (map snd sref)"
    and "map_of sref dim = Some sa" and "list_all (\<lambda>(d, a). a < length st) sref"
  shows "deref (st[sa := x]) sref = AList.update dim x (deref st sref)"
  using assms
proof (induction sref)
  case Nil
  then show ?case by simp
next
  case (Cons p sref)
  obtain k a where p: "p = (k, a)" by (cases p)
  show ?case
  proof (cases "k = dim")
    case True
    with Cons.prems p have sa: "a = sa" "sa < length st" "sa \<notin> snd ` set sref"
      by auto
    from deref_update_other [OF sa(3)] have "deref (st[sa := x]) sref = deref st sref" .
    with True p sa show ?thesis
      by (simp add: deref_def)
  next
    case False
    with Cons.prems p have m: "map_of sref dim = Some sa" by simp
    then have "sa \<in> snd ` set sref" by (metis map_of_SomeD image_eqI snd_conv)
    with Cons.prems p have ne: "a \<noteq> sa" by auto
    from Cons.prems p have "distinct (map fst sref)" "distinct (map snd sref)"
      "list_all (\<lambda>(d, a). a < length st) sref" by auto
    from Cons.IH [OF this(1,2) m this(3)] False p ne show ?thesis
      by (simp add: deref_def)
  qed
qed

lemma catalog_nth:
  "catalog_loaded st \<Longrightarrow> a < length catalog_store \<Longrightarrow> st ! a = catalog_store ! a"
  by (metis catalog_loaded_def nth_take)

lemma deref_catalog:
  "catalog_loaded st \<Longrightarrow> list_all (\<lambda>(d, a). a < length catalog_store) dref \<Longrightarrow>
     deref st dref = deref catalog_store dref"
  by (induction dref) (auto simp: deref_def catalog_nth)

lemma sb_inv_update:
  assumes "sb_inv st sref" and "map_of sref dim = Some sa"
  shows "sb_inv (st[sa := x]) sref"
proof -
  from assms(2) have "(dim, sa) \<in> set sref" by (rule map_of_SomeD)
  with assms(1) have "length catalog_store \<le> sa"
    by (auto simp: sb_inv_def list_all_iff)
  with assms(1) show ?thesis
    by (simp add: sb_inv_def catalog_loaded_def)
qed

lemma apply_delta_st_sim:
  assumes "sb_inv st sref" and "list_all (\<lambda>(d, a). a < length catalog_store) dref"
  shows "sb_inv (apply_delta_st st sref dref) sref
       \<and> deref (apply_delta_st st sref dref) sref
           = apply_delta (deref st sref) (deref catalog_store dref)"
  using assms
proof (induction dref arbitrary: st)
  case Nil
  then show ?case by (simp add: deref_def)
next
  case (Cons p dref)
  obtain dim ca where p: "p = (dim, ca)" by (cases p)
  from Cons.prems p have ca: "ca < length catalog_store"
    and rest: "list_all (\<lambda>(d, a). a < length catalog_store) dref"
    by auto
  from Cons.prems(1) have cl: "catalog_loaded st" by (simp add: sb_inv_def)
  have dc: "deref catalog_store (p # dref) = (dim, catalog_store ! ca) # deref catalog_store dref"
    by (simp add: p deref_def)
  show ?case
  proof (cases "map_of sref dim")
    case None
    then have "map_of (deref st sref) dim = None" by (simp add: map_of_deref)
    with None Cons.IH [OF Cons.prems(1) rest] p dc show ?thesis by simp
  next
    case (Some sa)
    let ?x = "apply_changes (st ! sa) (st ! ca)"
    have inv: "sb_inv (st[sa := ?x]) sref"
      using Cons.prems(1) Some by (rule sb_inv_update)
    from Cons.prems(1) have "distinct (map fst sref)" "distinct (map snd sref)"
      "list_all (\<lambda>(d, a). a < length st) sref"
      by (auto simp: sb_inv_def list_all_iff)
    from deref_update [OF this(1,2) Some this(3)]
    have du: "deref (st[sa := ?x]) sref = AList.update dim ?x (deref st sref)" .
    have m: "map_of (deref st sref) dim = Some (st ! sa)"
      using Some by (simp add: map_of_deref)
    have c: "st ! ca = catalog_store ! ca"
      using cl ca by (rule catalog_nth)
    from Cons.IH [OF inv rest] Some p dc du m c show ?thesis by simp
  qed
qed

lemma flavor_catalog_values:
  "map (\<lambda>(f, rl). (f, deref_rule catalog_store rl)) FLAVOR_RULES_ref = FLAVOR_RULES"
  by code_simp

lemma rules_catalog_values:
  "map (\<lambda>(field_name, rs). (field_name, map (\<lambda>(val, rl). (val, deref_rule catalog_store rl)) rs))
     RULES_ref = RULES"
  by code_simp

lemma flavor_catalog_addrs:
  "list_all (\<lambda>(f, dref, reason, r_weight).
      list_all (\<lambda>(d, a). a < length catalog_store) dref) FLAVOR_RULES_ref"
  by code_simp

lemma rules_catalog_addrs:
  "list_all (\<lambda>(field_name, rs).
      list_all (\<lambda>(val, dref, reason, r_weight).
        list_all (\<lambda>(d, a). a < length catalog_store) dref) rs) RULES_ref"
  by code_simp

lemma map_of_map_values:
  "map_of (map (\<lambda>(k, v). (k, g v)) xs) k = map_option g (map_of xs k)"
  by (induction xs) auto

lemma flavor_lookup:
  "map_of FLAVOR_RULES f = map_option (deref_rule catalog_store) (map_of FLAVOR_RULES_ref f)"
  unfolding flavor_catalog_values [symmetric] by (rule map_of_map_values)

lemma field_rules_values:
  "field_rules field_name
     = map (\<lambda>(val, rl). (val, deref_rule catalog_store rl)) (field_rules_ref field_name)"
proof -
  have "map_of RULES field_name
      = map_option (map (\<lambda>(val, rl). (val, deref_rule catalog_store rl)))
          (map_of RULES_ref field_name)"
    unfolding rules_catalog_values [symmetric] by (rule map_of_map_values)
  then show ?thesis
    by (cases "map_of RULES_ref field_name") (simp_all add: field_rules_def field_rules_ref_def)
qed

lemma field_lookup:
  "map_of (field_rules field_name) val
     = map_option (deref_rule catalog_store) (map_of (field_rules_ref field_name) val)"
  unfolding field_rules_values by (rule map_of_map_values)

lemma flavor_addrs:
  assumes "map_of FLAVOR_RULES_ref f = Some (dref, reason, r_weight)"
  shows "list_all (\<lambda>(d, a). a < length catalog_store) dref"
proof -
  from assms have m: "(f, dref, reason, r_weight) \<in> set FLAVOR_RULES_ref"
    by (rule map_of_SomeD)
  let ?P = "\<lambda>(f, dref, reason, r_weight).
      list_all (\<lambda>(d, a). a < length catalog_store) (dref :: dict_ref)"
  have "\<forall>x\<in>set FLAVOR_RULES_ref. ?P x"
    using flavor_catalog_addrs by (simp only: list_all_iff)
  from bspec [OF this m] show ?thesis by simp
qed

lemma field_addrs:
  assumes "map_of (field_rules_ref field_name) val = Some (dref, reason, r_weight)"
  shows "list_all (\<lambda>(d, a). a < length catalog_store) dref"
proof (cases "map_of RULES_ref field_name")
  case None
  with assms show ?thesis by (simp add: field_rules_ref_def)
next
  case (Some rs)
  then have m: "(field_name, rs) \<in> set RULES_ref" by (rule map_of_SomeD)
  from assms Some have n: "(val, dref, reason, r_weight) \<in> set rs"
    by (auto simp: field_rules_ref_def dest: map_of_SomeD)
  let ?P = "\<lambda>(val, dref, reason, r_weight).
      list_all (\<lambda>(d, a). a < length catalog_store) (dref :: dict_ref)"
  have "\<forall>x\<in>set RULES_ref. (\<lambda>(field_name, rs). list_all ?P rs) x"
    using rules_catalog_addrs by (simp only: list_all_iff)
  from bspec [OF this m] have "\<forall>x\<in>set rs. ?P x"
    by (simp add: list_all_iff)
  from bspec [OF this n] show ?thesis by simp
qed

lemma single_choice_loop_st_sim:
  assumes "sb_inv (fst s) sref"
  shows "sb_inv (fst (single_choice_loop_st sref s fvs)) sref
       \<and> (deref (fst (single_choice_loop_st sref s fvs)) sref,
           snd (single_choice_loop_st sref s fvs))
         = single_choice_loop (deref (fst s) sref, snd s) fvs"
  using assms
proof (induction sref s fvs rule: single_choice_loop_st.induct)
  case (1 sref s)
  then show ?case by simp
next
  case (2 sref st rs field_name val rest)
  show ?case
  proof (cases "map_of (field_rules_ref field_name) val")
    case None
    then have "map_of (field_rules field_name) val = None" by (simp add: field_lookup)
    with None 2(1) [OF refl None] 2(3) show ?thesis by (simp add: Let_def)
  next
    case (Some rl)
    obtain dref reason r_weight where rl: "rl = (dref, reason, r_weight)" by (cases rl)
    from Some rl have p: "map_of (field_rules field_name) val
        = Some (deref catalog_store dref, reason, r_weight)"
      by (simp add: field_lookup deref_rule_def)
    from Some rl have "list_all (\<lambda>(d, a). a < length catalog_store) dref"
      by (simp add: field_addrs)
    from apply_delta_st_sim [OF _ this, of st sref] 2(3)
    have a: "sb_inv (apply_delta_st st sref dref) sref"
      and b: "deref (apply_delta_st st sref dref) sref
          = apply_delta (deref st sref) (deref catalog_store dref)"
      by simp_all
    from a have "sb_inv (fst (apply_delta_st st sref dref, rs @ [(reason, r_weight)])) sref"
      by simp
    from 2(2) [OF refl Some [unfolded rl] refl refl this] Some rl p b show ?thesis
      by (simp add: Let_def)
  qed
qed

lemma flavor_loop_st_sim:
  assumes "sb_inv (fst s) sref"
  shows "sb_inv (fst (flavor_loop_st sref s fs)) sref
       \<and> (deref (fst (flavor_loop_st sref s fs)) sref, snd (flavor_loop_st sref s fs))
         = flavor_loop (deref (fst s) sref, snd s) fs"
  using assms
proof (induction sref s fs rule: flavor_loop_st.induct)
  case (1 sref s)
  then show ?case by simp
next
  case (2 sref st rs f rest)
  show ?case
  proof (cases "map_of FLAVOR_RULES_ref f")
    case None
    then have "map_of FLAVOR_RULES f = None" by (simp add: flavor_lookup)
    with None 2(1) [OF None] 2(3) show ?thesis by simp
  next
    case (Some rl)
    obtain dref reason r_weight where rl: "rl = (dref, reason, r_weight)" by (cases rl)
    from Some rl have p: "map_of FLAVOR_RULES f
        = Some (deref catalog_store dref, reason, r_weight)"
      by (simp add: flavor_lookup deref_rule_def)
    from Some rl have "list_all (\<lambda>(d, a). a < length catalog_store) dref"
      by (simp add: flavor_addrs)
    from apply_delta_st_sim [OF _ this, of st sref] 2(3)
    have a: "sb_inv (apply_delta_st st sref dref) sref"
      and b: "deref (apply_delta_st st sref dref) sref
          = apply_delta (deref st sref) (deref catalog_store dref)"
      by simp_all
    from a have "sb_inv (fst (apply_delta_st st sref dref, rs @ [(reason, r_weight)])) sref"
      by simp
    from 2(2) [OF Some [unfolded rl] refl refl this] Some rl p b show ?thesis
      by simp
  qed
qed

lemma init_scoreboard_keys_distinct: "distinct (map fst init_scoreboard)"
  by (simp add: init_scoreboard_def)

lemma init_scoreboard_st_sim:
  assumes "catalog_loaded st"
  shows "sb_inv (snd (init_scoreboard_st st)) (fst (init_scoreboard_st st))
       \<and> deref (snd (init_scoreboard_st st)) (fst (init_scoreboard_st st)) = init_scoreboard"
proof -
  let ?sref = "fst (new_rows st init_scoreboard)"
  let ?st0 = "snd (new_rows st init_scoreboard)"
  have st0: "?st0 = st @ map snd init_scoreboard" by (rule new_rows_store)
  have k: "distinct (map fst ?sref)"
    by (simp only: new_rows_keys init_scoreboard_keys_distinct)
  have ad: "map snd ?sref = [length st ..< length st + length init_scoreboard]"
    by (rule new_rows_addrs)
  then have d: "distinct (map snd ?sref)" by simp
  from assms have n: "length catalog_store \<le> length st"
    by (simp add: catalog_loaded_def)
  have "\<forall>a\<in>set (map snd ?sref). length catalog_store \<le> a \<and> a < length ?st0"
    unfolding ad st0 using n by auto
  then have b: "list_all (\<lambda>(d, a). length catalog_store \<le> a \<and> a < length ?st0) ?sref"
    by (auto simp: list_all_iff)
  from assms have c: "catalog_loaded ?st0"
    unfolding st0 by (simp add: catalog_loaded_def)
  have e: "deref ?st0 ?sref = init_scoreboard"
    unfolding st0 using new_rows_deref [of st init_scoreboard "[]"] by simp
  from c k d b e show ?thesis
    by (simp add: sb_inv_def init_scoreboard_st_def)
qed

lemma resolve_st_deref: "resolve_st st sref dim = resolve (deref st sref) dim"
  by (cases "map_of sref dim") (simp_all add: resolve_st_def resolve_def map_of_deref)

lemma build_profile_st_refines:
  assumes "catalog_loaded st"
  shows "fst (build_profile_st st user) = build_profile user
       \<and> catalog_loaded (snd (build_profile_st st user))"
proof -
  let ?sref = "fst (init_scoreboard_st st)"
  let ?st0 = "snd (init_scoreboard_st st)"
  let ?fvs = "[(''stomach_sensitivity'', stomach_sensitivity user),
               (''caffeine_sensitivity'', caffeine_sensitivity user),
               (''time_of_day'', time_of_day user),
               (''purpose'', purpose user),
               (''brew_method'', brew_method user)]"
  let ?s1 = "single_choice_loop_st ?sref (?st0, []) ?fvs"
  let ?s2 = "flavor_loop_st ?sref ?s1 (UserPref.flavor_direction user)"
  from init_scoreboard_st_sim [OF assms]
  have i: "sb_inv ?st0 ?sref" and d0: "deref ?st0 ?sref = init_scoreboard"
    by simp_all
  from i have "sb_inv (fst (?st0, [] :: (string \<times> int) list)) ?sref" by simp
  from single_choice_loop_st_sim [OF this, of ?fvs]
  have i1: "sb_inv (fst ?s1) ?sref"
    and d1: "(deref (fst ?s1) ?sref, snd ?s1) = single_choice_loop (init_scoreboard, []) ?fvs"
    by (simp_all add: d0 del: single_choice_loop.simps single_choice_loop_st.simps)
  from flavor_loop_st_sim [OF i1, of "UserPref.flavor_direction user"]
  have i2: "sb_inv (fst ?s2) ?sref"
    and d2: "(deref (fst ?s2) ?sref, snd ?s2) = collect user"
    by (simp_all add: d1 collect_def del: single_choice_loop.simps single_choice_loop_st.simps)
  from d2 have c: "collect user = (deref (fst ?s2) ?sref, snd ?s2)" by simp
  have "fst (build_profile_st st user) = build_profile user"
    unfolding build_profile_st_def build_profile_def c
    by (simp add: case_prod_beta resolve_st_deref
        del: single_choice_loop.simps single_choice_loop_st.simps)
  moreover have "snd (build_profile_st st user) = fst ?s2"
    unfolding build_profile_st_def
    by (simp add: case_prod_beta del: single_choice_loop.simps single_choice_loop_st.simps)
  ultimately show ?thesis
    using i2 by (simp add: sb_inv_def)
qed

subsection \<open>The claims\<close>

text \<open>
  Claim C7. For every scoreboard and every delta-set (a dict of dicts, so no key occurs twice),
  \<^verbatim>\<open>apply_delta\<close> adds a delta to the score of its (dimension, label) when both exist
  in the scoreboard, skips without an error every delta whose dimension or label the
  scoreboard does not have (no entry appears for it), and leaves every entry that the
  delta-set does not name as it was; the keys of the scoreboard stay as they are.
\<close>

theorem apply_delta_adds_known_skips_unknown:
  assumes "wf_delta_set deltas"
  shows "score_at (apply_delta sc deltas) dim label =
           (case score_at sc dim label of
              None \<Rightarrow> None
            | Some v \<Rightarrow>
                (case score_at deltas dim label of
                   None \<Rightarrow> Some v
                 | Some delta \<Rightarrow> Some (v + delta)))
         \<and> label_keys (apply_delta sc deltas) = label_keys sc"
proof -
  have "score_at (apply_delta sc deltas) dim label =
      map_option (\<lambda>v. v + delta_total deltas dim label) (score_at sc dim label)"
    by (rule score_at_apply_delta_total)
  with delta_total_distinct [OF assms, of dim label] label_keys_apply_delta [of sc deltas]
  show ?thesis
    by (simp split: option.splits)
qed

theorem apply_delta_adds_known_skips_unknown_witness:
  "wf_delta_set [(''acidity'', [(''low'', 4), (''sour'', 1)]), (''aroma'', [(''low'', 2)])]
   \<and> score_at
        (apply_delta [(''acidity'', [(''low'', 1), (''medium'', 5)])]
           [(''acidity'', [(''low'', 4), (''sour'', 1)]), (''aroma'', [(''low'', 2)])])
        ''acidity'' ''low'' = Some 5
   \<and> label_keys
        (apply_delta [(''acidity'', [(''low'', 1), (''medium'', 5)])]
           [(''acidity'', [(''low'', 4), (''sour'', 1)]), (''aroma'', [(''low'', 2)])])
       = [(''acidity'', [''low'', ''medium''])]"
proof -
  have h: "wf_delta_set [(''acidity'', [(''low'', 4), (''sour'', 1)]), (''aroma'', [(''low'', 2)])]"
    by (simp add: wf_delta_set_def)
  have a: "score_at [(''acidity'', [(''low'', 1), (''medium'', 5)])] ''acidity'' ''low'' = Some 1"
    by (simp add: score_at_def)
  have b: "score_at [(''acidity'', [(''low'', 4), (''sour'', 1)]), (''aroma'', [(''low'', 2)])]
      ''acidity'' ''low'' = Some 4"
    by (simp add: score_at_def)
  have c: "label_keys [(''acidity'', [(''low'', 1), (''medium'', 5)])]
      = [(''acidity'', [''low'', ''medium''])]"
    by (simp add: label_keys_def)
  from apply_delta_adds_known_skips_unknown
    [OF h, of "[(''acidity'', [(''low'', 1), (''medium'', 5)])]" "''acidity''" "''low''"]
  show ?thesis
    unfolding a b c using h by simp
qed

text \<open>
  Claim C8. Throughout one scoring run the keys of every dimension of the scoreboard are
  that dimension's canonical labels: \<^verbatim>\<open>init_scoreboard\<close> has an entry for every label of
  every dimension (the derived \<^verbatim>\<open>bean_pref\<close> axis with arabica, blend, robusta
  included), no call of \<^verbatim>\<open>apply_delta\<close> adds or removes a key, and the scoreboard
  that \<^verbatim>\<open>build_profile\<close> returns has exactly these keys.
\<close>

theorem scoreboard_keys_are_canonical:
  "label_keys init_scoreboard = canonical_label_keys
   \<and> label_keys (apply_delta sc deltas) = label_keys sc
   \<and> (\<exists>r. build_profile user = Inr r \<and> label_keys (scores r) = canonical_label_keys)"
proof -
  from build_profile_result [of user] obtain r
    where "build_profile user = Inr r" "scores r = fst (collect user)"
    by blast
  then have "\<exists>r. build_profile user = Inr r \<and> label_keys (scores r) = canonical_label_keys"
    by (simp add: label_keys_collect canonical_keys)
  then show ?thesis
    by (simp add: canonical_keys label_keys_apply_delta)
qed

text \<open>
  Claim C3. For every non-empty label-to-score mapping \<^verbatim>\<open>argmax_label\<close> returns a label
  with the highest score, and among the labels that share the highest score the first one
  in the mapping's iteration order: every entry before the winner has a strictly smaller
  score, and no entry after it has a greater one.
\<close>

theorem argmax_label_first_maximum:
  assumes "score_map \<noteq> []"
  shows "\<exists>pre k v post. score_map = pre @ (k, v) # post \<and> argmax_label score_map = Some k
           \<and> (\<forall>p\<in>set pre. snd p < v) \<and> (\<forall>p\<in>set post. snd p \<le> v)"
  using assms by (rule argmax_label_split)

theorem argmax_label_first_maximum_witness:
  "[(''low'', 2), (''medium'', 5), (''high'', 5)] \<noteq> ([] :: score_map)
   \<and> argmax_label [(''low'', 2), (''medium'', 5), (''high'', 5)] = Some ''medium''"
proof -
  have h: "[(''low'', 2), (''medium'', 5), (''high'', 5)] \<noteq> ([] :: score_map)" by simp
  have a: "argmax_label [(''low'', 2), (''medium'', 5), (''high'', 5)] = Some ''medium''"
    by (simp add: argmax_label_def)
  have r: "P \<Longrightarrow> Q \<Longrightarrow> R \<Longrightarrow> Q \<and> R" for P Q R by simp
  show ?thesis
    by (rule r [OF argmax_label_first_maximum [OF h] h a])
qed

text \<open>
  Claim C1. For every user whose \<^verbatim>\<open>caffeine_sensitivity\<close> or \<^verbatim>\<open>stomach_sensitivity\<close>
  is \<^verbatim>\<open>"high"\<close>, \<^verbatim>\<open>build_profile\<close> returns a profile, and its
  \<^verbatim>\<open>bean_preference\<close> is not \<^verbatim>\<open>"robusta"\<close>, whatever the other answers are.
\<close>

theorem high_sensitivity_never_robusta:
  assumes "caffeine_sensitivity user = ''high'' \<or> stomach_sensitivity user = ''high''"
  shows "\<exists>r. build_profile user = Inr r \<and> bean_preference (profile r) \<noteq> Some ''robusta''"
proof -
  from build_profile_result [of user] obtain r bp
    where r: "build_profile user = Inr r"
      and b: "bean_preference (profile r) =
        (if (caffeine_sensitivity user = ''high'' \<or> stomach_sensitivity user = ''high'')
            \<and> bp = ''robusta''
         then Some ''arabica'' else Some bp)"
    by blast
  from b assms have "bean_preference (profile r) \<noteq> Some ''robusta''"
    by (cases "bp = ''robusta''") simp_all
  with r show ?thesis by blast
qed

theorem high_sensitivity_never_robusta_witness:
  "(caffeine_sensitivity scenario_A = ''high'' \<or> stomach_sensitivity scenario_A = ''high'')
   \<and> (\<exists>r. build_profile scenario_A = Inr r
         \<and> bean_preference (profile r) \<noteq> Some ''robusta'')"
proof -
  have h: "caffeine_sensitivity scenario_A = ''high'' \<or> stomach_sensitivity scenario_A = ''high''"
    by (simp add: scenario_A_def)
  show ?thesis
    by (rule conjI [OF h high_sensitivity_never_robusta [OF h]])
qed

text \<open>
  Claim C2. When no single-choice answer is a key of its field's rules and no selected flavor
  is a key of \<^verbatim>\<open>FLAVOR_RULES\<close>, \<^verbatim>\<open>build_profile\<close> returns the first label of each
  primary dimension's canonical order: acidity low, caffeine low, roast light, flavor
  nutty_chocolate, process washed, brew filter.
\<close>

theorem no_match_gives_first_labels:
  assumes "map_of (field_rules ''stomach_sensitivity'') (stomach_sensitivity user) = None"
    and "map_of (field_rules ''caffeine_sensitivity'') (caffeine_sensitivity user) = None"
    and "map_of (field_rules ''time_of_day'') (time_of_day user) = None"
    and "map_of (field_rules ''purpose'') (purpose user) = None"
    and "map_of (field_rules ''brew_method'') (brew_method user) = None"
    and "\<forall>f\<in>set (UserPref.flavor_direction user). map_of FLAVOR_RULES f = None"
  shows "\<exists>r. build_profile user = Inr r
     \<and> acidity_level (profile r) = Some ''low''
     \<and> caffeine_tendency (profile r) = Some ''low''
     \<and> roast_level (profile r) = Some ''light''
     \<and> Profile.flavor_direction (profile r) = Some ''nutty_chocolate''
     \<and> process_preference (profile r) = Some ''washed''
     \<and> brew_suitability (profile r) = Some ''filter''"
proof -
  have c: "fst (collect user) = init_scoreboard"
    using collect_no_match [OF assms] by simp
  from build_profile_result [of user] obtain r where r: "build_profile user = Inr r"
    and "resolve (fst (collect user)) ''acidity'' = Inr (acidity_level (profile r))"
    and "resolve (fst (collect user)) ''caffeine'' = Inr (caffeine_tendency (profile r))"
    and "resolve (fst (collect user)) ''roast'' = Inr (roast_level (profile r))"
    and "resolve (fst (collect user)) ''flavor'' = Inr (Profile.flavor_direction (profile r))"
    and "resolve (fst (collect user)) ''process'' = Inr (process_preference (profile r))"
    and "resolve (fst (collect user)) ''brew'' = Inr (brew_suitability (profile r))"
    by blast
  then have "acidity_level (profile r) = Some ''low''"
    "caffeine_tendency (profile r) = Some ''low''"
    "roast_level (profile r) = Some ''light''"
    "Profile.flavor_direction (profile r) = Some ''nutty_chocolate''"
    "process_preference (profile r) = Some ''washed''"
    "brew_suitability (profile r) = Some ''filter''"
    unfolding c resolve_init by simp_all
  with r show ?thesis by blast
qed

theorem no_match_gives_first_labels_witness:
  "map_of (field_rules ''stomach_sensitivity'') (stomach_sensitivity no_signal) = None
   \<and> map_of (field_rules ''caffeine_sensitivity'') (caffeine_sensitivity no_signal) = None
   \<and> map_of (field_rules ''time_of_day'') (time_of_day no_signal) = None
   \<and> map_of (field_rules ''purpose'') (purpose no_signal) = None
   \<and> map_of (field_rules ''brew_method'') (brew_method no_signal) = None
   \<and> UserPref.flavor_direction no_signal = [''smoky'', ''bitter'']
   \<and> map_of FLAVOR_RULES ''smoky'' = None
   \<and> map_of FLAVOR_RULES ''bitter'' = None
   \<and> (\<exists>r. build_profile no_signal = Inr r
         \<and> acidity_level (profile r) = Some ''low''
         \<and> caffeine_tendency (profile r) = Some ''low''
         \<and> roast_level (profile r) = Some ''light''
         \<and> Profile.flavor_direction (profile r) = Some ''nutty_chocolate''
         \<and> process_preference (profile r) = Some ''washed''
         \<and> brew_suitability (profile r) = Some ''filter'')"
proof -
  have f: "UserPref.flavor_direction no_signal = [''smoky'', ''bitter'']"
    by (simp add: no_signal_def)
  have s: "map_of FLAVOR_RULES ''smoky'' = None" "map_of FLAVOR_RULES ''bitter'' = None"
    using no_signal_hyps(6) by (simp_all add: f)
  show ?thesis
    by (intro conjI no_signal_hyps(1-5) f s no_match_gives_first_labels [OF no_signal_hyps])
qed




text \<open>
  Claim C5. \<^verbatim>\<open>build_profile\<close> is deterministic: two invocations with the same six field
  values return identical results (labels, scores, reasons and disclaimer). The source
  calls no random, clock or input function; what one invocation could pass on to another
  is the state of the objects of the process. So the two invocations start from any two
  stores in which the catalog is as the module created it: the store after the module is
  executed is one (the witness starts there), and every invocation leaves such a store
  behind, since it writes to the rows of its own new scoreboard only. Both invocations
  return a profile, the same one, and it is the value of \<open>build_profile\<close> on values.
\<close>

theorem build_profile_deterministic:
  assumes "catalog_loaded st" and "catalog_loaded st'"
    and "stomach_sensitivity u = stomach_sensitivity u'"
    and "caffeine_sensitivity u = caffeine_sensitivity u'"
    and "time_of_day u = time_of_day u'"
    and "purpose u = purpose u'"
    and "UserPref.flavor_direction u = UserPref.flavor_direction u'"
    and "brew_method u = brew_method u'"
  shows "\<exists>out. fst (build_profile_st st u) = Inr out
       \<and> fst (build_profile_st st' u') = Inr out
       \<and> catalog_loaded (snd (build_profile_st st u))
       \<and> catalog_loaded (snd (build_profile_st st' u'))
       \<and> build_profile u = Inr out"
proof -
  from assms(3-8) have e: "u' = u" by simp
  from build_profile_result [of u] obtain out where out: "build_profile u = Inr out" by blast
  from build_profile_st_refines [OF assms(1), of u] out
  have a: "fst (build_profile_st st u) = Inr out"
    and l: "catalog_loaded (snd (build_profile_st st u))"
    by simp_all
  from build_profile_st_refines [OF assms(2), of u] out
  have b: "fst (build_profile_st st' u) = Inr out"
    and l': "catalog_loaded (snd (build_profile_st st' u))"
    by simp_all
  from a b l l' out show ?thesis
    unfolding e by blast
qed

theorem build_profile_deterministic_witness:
  "catalog_loaded catalog_store
   \<and> catalog_loaded (snd (build_profile_st catalog_store scenario_A))
   \<and> stomach_sensitivity scenario_A = ''high''
   \<and> caffeine_sensitivity scenario_A = ''high''
   \<and> time_of_day scenario_A = ''evening''
   \<and> purpose scenario_A = ''calm''
   \<and> UserPref.flavor_direction scenario_A = [''floral'']
   \<and> brew_method scenario_A = ''filter''
   \<and> (\<exists>out. fst (build_profile_st catalog_store scenario_A) = Inr out
        \<and> fst (build_profile_st (snd (build_profile_st catalog_store scenario_A))
               \<lparr>stomach_sensitivity = ''high'', caffeine_sensitivity = ''high'',
                time_of_day = ''evening'', purpose = ''calm'',
                UserPref.flavor_direction = [''floral''], brew_method = ''filter''\<rparr>)
            = Inr out)"
proof -
  let ?u = "\<lparr>stomach_sensitivity = ''high'', caffeine_sensitivity = ''high'',
          time_of_day = ''evening'', purpose = ''calm'',
          UserPref.flavor_direction = [''floral''], brew_method = ''filter''\<rparr>"
  have l0: "catalog_loaded catalog_store"
    by (simp add: catalog_loaded_def)
  from build_profile_st_refines [OF l0, of scenario_A]
  have l1: "catalog_loaded (snd (build_profile_st catalog_store scenario_A))"
    by (rule conjunct2)
  have h: "stomach_sensitivity scenario_A = stomach_sensitivity ?u"
    "caffeine_sensitivity scenario_A = caffeine_sensitivity ?u"
    "time_of_day scenario_A = time_of_day ?u"
    "purpose scenario_A = purpose ?u"
    "UserPref.flavor_direction scenario_A = UserPref.flavor_direction ?u"
    "brew_method scenario_A = brew_method ?u"
    by (simp_all add: scenario_A_def)
  have v: "stomach_sensitivity scenario_A = ''high''"
    "caffeine_sensitivity scenario_A = ''high''"
    "time_of_day scenario_A = ''evening''"
    "purpose scenario_A = ''calm''"
    "UserPref.flavor_direction scenario_A = [''floral'']"
    "brew_method scenario_A = ''filter''"
    by (simp_all add: scenario_A_def)
  from build_profile_deterministic [OF l0 l1 h] obtain out
    where "fst (build_profile_st catalog_store scenario_A) = Inr out"
      "fst (build_profile_st (snd (build_profile_st catalog_store scenario_A)) ?u) = Inr out"
    by blast
  then have "\<exists>out. fst (build_profile_st catalog_store scenario_A) = Inr out
        \<and> fst (build_profile_st (snd (build_profile_st catalog_store scenario_A)) ?u) = Inr out"
    by blast
  then show ?thesis
    by (intro conjI l0 l1 v)
qed

text \<open>
  Claim C6. Appending to \<^verbatim>\<open>flavor_direction\<close> a value that is not a key of
  \<^verbatim>\<open>FLAVOR_RULES\<close> changes nothing: \<^verbatim>\<open>build_profile\<close> returns the same result as
  without the value (the same profile, scoreboard, reasons and disclaimer), and it raises
  no error.
\<close>

theorem unknown_flavor_changes_nothing:
  assumes "map_of FLAVOR_RULES x = None"
  shows "build_profile (user\<lparr>UserPref.flavor_direction := UserPref.flavor_direction user @ [x]\<rparr>)
           = build_profile user
         \<and> (\<exists>r. build_profile user = Inr r)"
proof -
  have k: "flavor_loop st (fs @ [x]) = flavor_loop st fs" for st fs
    using assms by (simp add: flavor_loop_append flavor_loop_skip)
  have "collect (user\<lparr>UserPref.flavor_direction := UserPref.flavor_direction user @ [x]\<rparr>)
      = collect user"
    by (simp add: collect_def k del: single_choice_loop.simps)
  then have "build_profile (user\<lparr>UserPref.flavor_direction := UserPref.flavor_direction user @ [x]\<rparr>)
      = build_profile user"
    by (simp add: build_profile_def)
  moreover from build_profile_result [of user] have "\<exists>r. build_profile user = Inr r" by blast
  ultimately show ?thesis by simp
qed

theorem unknown_flavor_changes_nothing_witness:
  "map_of FLAVOR_RULES ''smoky'' = None
   \<and> build_profile
        (scenario_A\<lparr>UserPref.flavor_direction :=
           UserPref.flavor_direction scenario_A @ [''smoky'']\<rparr>)
       = build_profile scenario_A"
proof -
  have h: "map_of FLAVOR_RULES ''smoky'' = None"
    by code_simp
  from unknown_flavor_changes_nothing [OF h, of scenario_A]
  have "build_profile
        (scenario_A\<lparr>UserPref.flavor_direction :=
           UserPref.flavor_direction scenario_A @ [''smoky'']\<rparr>)
       = build_profile scenario_A"
    by (rule conjunct1)
  with h show ?thesis by (rule conjI)
qed

text \<open>
  Claim C9. Scenario A (stomach sensitivity high, caffeine sensitivity high, evening, calm,
  floral, filter) gives bean preference arabica, caffeine tendency low, process preference
  washed and brew suitability filter.
\<close>

theorem scenario_A_profile:
  "\<exists>r. build_profile scenario_A = Inr r
     \<and> bean_preference (profile r) = Some ''arabica''
     \<and> caffeine_tendency (profile r) = Some ''low''
     \<and> process_preference (profile r) = Some ''washed''
     \<and> brew_suitability (profile r) = Some ''filter''"
proof -
  have c: "resolve (fst (collect scenario_A)) ''caffeine'' = Inr (Some ''low'')"
    unfolding scenario_A_scores by (simp add: resolve_def argmax_label_def)
  have p: "resolve (fst (collect scenario_A)) ''process'' = Inr (Some ''washed'')"
    unfolding scenario_A_scores by (simp add: resolve_def argmax_label_def)
  have b: "resolve (fst (collect scenario_A)) ''brew'' = Inr (Some ''filter'')"
    unfolding scenario_A_scores by (simp add: resolve_def argmax_label_def)
  have n: "resolve (fst (collect scenario_A)) ''bean_pref'' = Inr (Some ''arabica'')"
    unfolding scenario_A_scores by (simp add: resolve_def argmax_label_def)
  from build_profile_result [of scenario_A] obtain r bp
    where r: "build_profile scenario_A = Inr r"
      and "resolve (fst (collect scenario_A)) ''caffeine'' = Inr (caffeine_tendency (profile r))"
      and "resolve (fst (collect scenario_A)) ''process'' = Inr (process_preference (profile r))"
      and "resolve (fst (collect scenario_A)) ''brew'' = Inr (brew_suitability (profile r))"
      and "resolve (fst (collect scenario_A)) ''bean_pref'' = Inr (Some bp)"
      and "bean_preference (profile r) =
        (if (caffeine_sensitivity scenario_A = ''high'' \<or> stomach_sensitivity scenario_A = ''high'')
            \<and> bp = ''robusta''
         then Some ''arabica'' else Some bp)"
    by blast
  then have "bean_preference (profile r) = Some ''arabica''"
    "caffeine_tendency (profile r) = Some ''low''"
    "process_preference (profile r) = Some ''washed''"
    "brew_suitability (profile r) = Some ''filter''"
    unfolding c p b n by simp_all
  with r show ?thesis by blast
qed

text \<open>
  Claim C10. A known flavor that occurs several times in \<^verbatim>\<open>flavor_direction\<close> is
  applied once per occurrence. For every (dimension, label) of the scoreboard, the score
  that \<^verbatim>\<open>build_profile\<close> returns is the score of the run in which every occurrence of
  the flavor is left out, plus the rule's delta for that (dimension, label) times the
  number of occurrences; in particular the flavor's own score is 3 times the number of
  occurrences. The explanation entries collected before ranking, from which the returned
  reasons are taken, hold the rule's entry exactly once per occurrence.
\<close>

theorem repeated_flavor_counts_per_occurrence:
  assumes "map_of FLAVOR_RULES f = Some (deltas, reason, r_weight)"
    and "map_of canonical_label_keys dim = Some labels"
    and "label \<in> set labels"
  shows "\<exists>r r' v. build_profile user = Inr r
     \<and> build_profile
          (user\<lparr>UserPref.flavor_direction := removeAll f (UserPref.flavor_direction user)\<rparr>)
        = Inr r'
     \<and> score_at (scores r') dim label = Some v
     \<and> score_at (scores r) dim label =
         Some (v + int (count_list (UserPref.flavor_direction user) f)
                    * (case score_at deltas dim label of None \<Rightarrow> 0 | Some d \<Rightarrow> d))
     \<and> score_at (scores r) ''flavor'' f
         = Some (3 * int (count_list (UserPref.flavor_direction user) f))
     \<and> reasons r = top_reasons (snd (collect user)) 4
     \<and> count_list (snd (collect user)) (reason, r_weight)
         = count_list (UserPref.flavor_direction user) f"
proof -
  let ?fs = "UserPref.flavor_direction user"
  let ?u' = "user\<lparr>UserPref.flavor_direction := removeAll f ?fs\<rparr>"
  let ?d = "case score_at deltas dim label of None \<Rightarrow> 0 | Some d \<Rightarrow> d"
  define st0 where "st0 =
    single_choice_loop (init_scoreboard, [])
      [(''stomach_sensitivity'', stomach_sensitivity user),
       (''caffeine_sensitivity'', caffeine_sensitivity user),
       (''time_of_day'', time_of_day user),
       (''purpose'', purpose user),
       (''brew_method'', brew_method user)]"
  have cu: "collect user = flavor_loop st0 ?fs"
    by (simp add: collect_def st0_def del: single_choice_loop.simps)
  have cu': "collect ?u' = flavor_loop st0 (removeAll f ?fs)"
    by (simp add: collect_def st0_def del: single_choice_loop.simps)
  from assms(1) have "(f, deltas, reason, r_weight) \<in> set FLAVOR_RULES"
    by (rule map_of_SomeD)
  with flavor_rules_wf have wf: "wf_delta_set deltas"
    by (auto simp: list_all_iff)
  have hf: "flavor_contrib f dim label = ?d"
    using assms(1) by (simp add: flavor_contrib_def delta_total_distinct [OF wf])
  have sc: "score_at (fst (collect user)) dim label =
      map_option (\<lambda>v. v + int (count_list ?fs f) * ?d) (score_at (fst (collect ?u')) dim label)"
    unfolding cu cu' flavor_loop_scores
      sum_list_removeAll [of "\<lambda>g. flavor_contrib g dim label" ?fs f] hf
    by (simp add: option.map_comp comp_def algebra_simps)
  have "label_keys (fst (collect ?u')) = canonical_label_keys"
    by (simp only: label_keys_collect canonical_keys)
  from score_at_canonical [OF this assms(2,3)]
  obtain v where v: "score_at (fst (collect ?u')) dim label = Some v" by blast
  from sc v have sv: "score_at (fst (collect user)) dim label
      = Some (v + int (count_list ?fs f) * ?d)"
    by simp
  note fl = collect_flavor_score [OF assms(1), of user]
  note rc = collect_reason_count [OF assms(1), of user]
  from build_profile_result [of user] obtain r
    where r: "build_profile user = Inr r" "scores r = fst (collect user)"
      "reasons r = top_reasons (snd (collect user)) 4"
    by blast
  from build_profile_result [of ?u'] obtain r'
    where r': "build_profile ?u' = Inr r'" "scores r' = fst (collect ?u')"
    by blast
  have "build_profile user = Inr r
     \<and> build_profile ?u' = Inr r'
     \<and> score_at (scores r') dim label = Some v
     \<and> score_at (scores r) dim label = Some (v + int (count_list ?fs f) * ?d)
     \<and> score_at (scores r) ''flavor'' f = Some (3 * int (count_list ?fs f))
     \<and> reasons r = top_reasons (snd (collect user)) 4
     \<and> count_list (snd (collect user)) (reason, r_weight) = count_list ?fs f"
    unfolding r r' by (intro conjI refl v sv fl rc)
  then show ?thesis by blast
qed

theorem repeated_flavor_counts_per_occurrence_witness:
  "map_of FLAVOR_RULES ''floral'' =
     Some ([(''flavor'', [(''floral'', 3)]),
            (''roast'', [(''light'', 2), (''medium'', 1)]),
            (''process'', [(''washed'', 2), (''any'', 1)])],
           ''Flavor: floral '' @ arrow @ '' often shines in light roast; washed process tends to keep it clean and tea-like.'',
           55)
   \<and> map_of canonical_label_keys ''roast'' = Some ROAST
   \<and> ''light'' \<in> set ROAST
   \<and> (\<exists>r r'.
         build_profile
           (scenario_A\<lparr>UserPref.flavor_direction := [''floral'', ''fruity'', ''floral'']\<rparr>)
         = Inr r
       \<and> build_profile (scenario_A\<lparr>UserPref.flavor_direction := [''fruity'']\<rparr>) = Inr r'
       \<and> score_at (scores r') ''roast'' ''light'' = Some 1
       \<and> score_at (scores r) ''roast'' ''light'' = Some 5
       \<and> score_at (scores r) ''flavor'' ''floral'' = Some 6)
   \<and> count_list
        (snd (collect
           (scenario_A\<lparr>UserPref.flavor_direction := [''floral'', ''fruity'', ''floral'']\<rparr>)))
        (''Flavor: floral '' @ arrow @ '' often shines in light roast; washed process tends to keep it clean and tea-like.'',
         55) = 2"
proof -
  let ?d = "[(''flavor'', [(''floral'', 3)]),
            (''roast'', [(''light'', 2), (''medium'', 1)]),
            (''process'', [(''washed'', 2), (''any'', 1)])]"
  let ?t = "''Flavor: floral '' @ arrow @ '' often shines in light roast; washed process tends to keep it clean and tea-like.''"
  let ?u = "scenario_A\<lparr>UserPref.flavor_direction := [''floral'', ''fruity'', ''floral'']\<rparr>"
  let ?u' = "scenario_A\<lparr>UserPref.flavor_direction := [''fruity'']\<rparr>"
  have h1: "map_of FLAVOR_RULES ''floral'' = Some (?d, ?t, 55)"
    by (simp add: FLAVOR_RULES_def)
  have h2: "map_of canonical_label_keys ''roast'' = Some ROAST"
    by (simp add: canonical_label_keys_def)
  have h3: "''light'' \<in> set ROAST"
    by (simp add: ROAST_def)
  have n: "count_list (UserPref.flavor_direction ?u) ''floral'' = 2"
    by simp
  have s: "(case score_at ?d ''roast'' ''light'' of None \<Rightarrow> 0 | Some d \<Rightarrow> d) = 2"
    by (simp add: score_at_def)
  have w: "?u\<lparr>UserPref.flavor_direction := removeAll ''floral'' (UserPref.flavor_direction ?u)\<rparr>
      = ?u'"
    by simp
  have e: "score_at (fst (collect ?u')) ''roast'' ''light'' = Some 1"
    by code_simp
  from repeated_flavor_counts_per_occurrence [OF h1 h2 h3, of ?u]
  obtain r r' v where
    r: "build_profile ?u = Inr r" and r': "build_profile ?u' = Inr r'"
    and v: "score_at (scores r') ''roast'' ''light'' = Some v"
    and sv: "score_at (scores r) ''roast'' ''light'' = Some (v + int 2 * 2)"
    and fl: "score_at (scores r) ''flavor'' ''floral'' = Some (3 * int 2)"
    and rc: "count_list (snd (collect ?u)) (?t, 55) = 2"
    unfolding w n s by blast
  from build_profile_result [of ?u'] obtain r2
    where "build_profile ?u' = Inr r2" "scores r2 = fst (collect ?u')"
    by blast
  with r' have "scores r' = fst (collect ?u')" by simp
  with v e have "v = 1" by simp
  with sv fl have sv5: "score_at (scores r) ''roast'' ''light'' = Some 5"
    and fl6: "score_at (scores r) ''flavor'' ''floral'' = Some 6"
    by simp_all
  from v \<open>v = 1\<close> have v1: "score_at (scores r') ''roast'' ''light'' = Some 1" by simp
  have "\<exists>r r'. build_profile ?u = Inr r \<and> build_profile ?u' = Inr r'
       \<and> score_at (scores r') ''roast'' ''light'' = Some 1
       \<and> score_at (scores r) ''roast'' ''light'' = Some 5
       \<and> score_at (scores r) ''flavor'' ''floral'' = Some 6"
    by (intro exI [of _ r] exI [of _ r'] conjI r r' v1 sv5 fl6)
  then show ?thesis
    by (intro conjI h1 h2 h3 rc)
qed

end
